theory Spec2Isabelle
  imports Complex_Main "HOL-Library.Sublist" "HOL-Library.AList"
begin

section \<open>The task result cache of the tasks runner (\<^verbatim>\<open>tasks-runner/cache.ts\<close>)\<close>

text \<open>
  The class \<^verbatim>\<open>Cache\<close> keeps, per task hash, a directory with the terminal output, the
  exit code and a copy of the declared outputs, next to a commit marker
  \<^verbatim>\<open><hash>.commit\<close>. All of its methods work on the file system, so the embedding
  consists of three layers: paths (\<^verbatim>\<open>path.join\<close>), a file system with the calls of
  \<^verbatim>\<open>fs\<close> and \<^verbatim>\<open>fs-extra\<close> that the class uses, and the methods themselves, written
  as functions of the file system that also return the calls they made.
\<close>

subsection \<open>Paths\<close>

text \<open>
  A path is the list of its segments below the file system root; every path of the class
  is absolute, because \<^verbatim>\<open>root\<close> and \<^verbatim>\<open>cachePath\<close> are. The separator is the POSIX one.
  \<^verbatim>\<open>join(base, a, b, ...)\<close> concatenates its arguments with the separator and
  normalises: empty segments and \<^verbatim>\<open>.\<close> vanish, \<^verbatim>\<open>..\<close> removes the segment before it and
  stays at the root when there is none. A trailing separator is dropped.
\<close>

type_synonym path = "string list"

fun split_sep :: "string \<Rightarrow> string list" where
  "split_sep [] = [[]]"
| "split_sep (c # cs) =
     (if c = CHR ''/'' then [] # split_sep cs
      else (case split_sep cs of x # xs \<Rightarrow> (c # x) # xs | [] \<Rightarrow> [[c]]))"

fun join_str :: "string \<Rightarrow> string list \<Rightarrow> string" where
  "join_str s [] = []"
| "join_str s [x] = x"
| "join_str s (x # y # ys) = x @ s @ join_str s (y # ys)"

definition push_segment :: "path \<Rightarrow> string \<Rightarrow> path" where
  "push_segment p s =
     (if s = [] \<or> s = ''.'' then p else if s = ''..'' then butlast p else p @ [s])"

definition join :: "path \<Rightarrow> string list \<Rightarrow> path" where
  "join base args = foldl push_segment base (concat (map split_sep args))"

text \<open>\<^verbatim>\<open>resolve(p, '..')\<close> and \<^verbatim>\<open>dirname(p)\<close> of an absolute, normalised path.\<close>

definition dirname :: "path \<Rightarrow> path" where
  "dirname p = butlast p"

subsection \<open>The file system\<close>

text \<open>
  The file system is a table from paths to entries; the root is a directory that is always
  there. Symbolic links, permissions and the other reasons for which a call of the
  operating system can fail are outside the model: a call fails exactly when the shape of
  the tree makes it fail.
\<close>

datatype entry = File string | Directory

type_synonym fsys = "(path \<times> entry) list"

datatype error = ENOENT | ENOTDIR | EISDIR | EEXIST | CopyError | RemoteError string

definition stat :: "fsys \<Rightarrow> path \<Rightarrow> entry option" where
  "stat t p = (if p = [] then Some Directory else map_of t p)"

definition exists_path :: "fsys \<Rightarrow> path \<Rightarrow> bool" where
  "exists_path t p = (stat t p \<noteq> None)"

definition is_file :: "fsys \<Rightarrow> path \<Rightarrow> bool" where
  "is_file t p = (case stat t p of Some (File c) \<Rightarrow> True | _ \<Rightarrow> False)"

text \<open>Every entry lies in a directory: the shape of a real file system.\<close>

definition wf_fs :: "fsys \<Rightarrow> bool" where
  "wf_fs t = list_all (\<lambda>(q, e). q \<noteq> [] \<and> stat t (butlast q) = Some Directory) t"

definition fs_readFile :: "fsys \<Rightarrow> path \<Rightarrow> error + string" where
  "fs_readFile t p =
     (case stat t p of None \<Rightarrow> Inl ENOENT | Some Directory \<Rightarrow> Inl EISDIR | Some (File c) \<Rightarrow> Inr c)"

definition fs_isFile :: "fsys \<Rightarrow> path \<Rightarrow> error + bool" where
  "fs_isFile t p =
     (case stat t p of None \<Rightarrow> Inl ENOENT | Some Directory \<Rightarrow> Inr False | Some (File c) \<Rightarrow> Inr True)"

definition fs_readdir :: "fsys \<Rightarrow> path \<Rightarrow> error + string list" where
  "fs_readdir t p =
     (case stat t p of
        None \<Rightarrow> Inl ENOENT
      | Some (File c) \<Rightarrow> Inl ENOTDIR
      | Some Directory \<Rightarrow>
          Inr (remdups (map (\<lambda>(q, e). last q) (filter (\<lambda>(q, e). q \<noteq> [] \<and> butlast q = p) t))))"

text \<open>\<^verbatim>\<open>remove\<close> of fs-extra deletes a file or a whole tree and accepts a missing path.\<close>

definition fs_remove :: "fsys \<Rightarrow> path \<Rightarrow> error + fsys" where
  "fs_remove t p = Inr (filter (\<lambda>(q, e). \<not> prefix p q) t)"

definition fs_unlink :: "fsys \<Rightarrow> path \<Rightarrow> error + fsys" where
  "fs_unlink t p =
     (case stat t p of
        None \<Rightarrow> Inl ENOENT
      | Some Directory \<Rightarrow> Inl EISDIR
      | Some (File c) \<Rightarrow> Inr (filter (\<lambda>(q, e). q \<noteq> p) t))"

definition fs_mkdir :: "fsys \<Rightarrow> path \<Rightarrow> error + fsys" where
  "fs_mkdir t p =
     (if stat t p \<noteq> None then Inl EEXIST
      else (case stat t (butlast p) of
              None \<Rightarrow> Inl ENOENT
            | Some (File c) \<Rightarrow> Inl ENOTDIR
            | Some Directory \<Rightarrow> Inr (AList.update p Directory t)))"

definition fs_writeFile :: "path \<Rightarrow> string \<Rightarrow> fsys \<Rightarrow> error + fsys" where
  "fs_writeFile p c t =
     (if stat t p = Some Directory then Inl EISDIR
      else (case stat t (butlast p) of
              None \<Rightarrow> Inl ENOENT
            | Some (File d) \<Rightarrow> Inl ENOTDIR
            | Some Directory \<Rightarrow> Inr (AList.update p (File c) t)))"

text \<open>\<^verbatim>\<open>ensureDir\<close> is \<^verbatim>\<open>mkdir -p\<close>: it fails when a file is in the way.\<close>

definition fs_ensureDir :: "fsys \<Rightarrow> path \<Rightarrow> error + fsys" where
  "fs_ensureDir t p =
     (if is_file t p then Inl EEXIST
      else if list_ex (is_file t) (prefixes p) then Inl ENOTDIR
      else Inr (map (\<lambda>q. (q, Directory)) (filter (\<lambda>q. stat t q = None) (prefixes p)) @ t))"

text \<open>
  \<^verbatim>\<open>copy(src, dest)\<close> of fs-extra with its default options: the source must exist, must
  not be the destination, and a directory is not copied into itself; the parent of the
  destination is created; a file replaces a file, a directory is merged into a directory,
  and a file meeting a directory (or the reverse) anywhere below is an error. A copy that
  fails on such a clash below the top leaves a partial copy in reality, whose extent
  depends on the order of the directory listing; here it leaves the destination as it was.
\<close>

definition clash :: "entry \<Rightarrow> entry option \<Rightarrow> bool" where
  "clash e d =
     (case d of None \<Rightarrow> False
      | Some Directory \<Rightarrow> e \<noteq> Directory
      | Some (File c) \<Rightarrow> e = Directory)"

definition fs_copy :: "path \<Rightarrow> path \<Rightarrow> fsys \<Rightarrow> error + fsys" where
  "fs_copy src dst t =
     (case stat t src of
        None \<Rightarrow> Inl ENOENT
      | Some e \<Rightarrow>
          if src = dst then Inl CopyError
          else if e = Directory \<and> prefix src dst then Inl CopyError
          else if clash e (stat t dst) then Inl CopyError
          else (case fs_ensureDir t (butlast dst) of
                  Inl err \<Rightarrow> Inl err
                | Inr t1 \<Rightarrow>
                    if list_ex (\<lambda>(q, e'). strict_prefix src q \<and> map_of t1 q = Some e' \<and>
                          clash e' (stat t1 (dst @ drop (length src) q))) t1
                    then Inl CopyError
                    else Inr ((dst, e) #
                           map (\<lambda>(q, e'). (dst @ drop (length src) q, e'))
                             (filter (\<lambda>(q, e'). strict_prefix src q) t1) @ t1)))"

subsection \<open>Asynchronous calls: state, failure and the record of calls\<close>

text \<open>
  Every \<^verbatim>\<open>await\<close> of the class is one call on the file system or on the remote cache.
  A computation takes the file system and returns its outcome (a rejected promise is the
  left summand), the file system it leaves behind, also when it fails, and the calls it
  made, oldest first.
\<close>

datatype event =
    Exists path | Lstat path | Readdir path | ReadFile path
  | WriteFile path string | Mkdir path | EnsureDir path | Remove path | Unlink path
  | Copy path path
  | RemoteRetrieve string path | RemoteStore string path

type_synonym 'a io = "fsys \<Rightarrow> (error + 'a) \<times> fsys \<times> event list"

definition outcome :: "(error + 'a) \<times> fsys \<times> event list \<Rightarrow> error + 'a" where
  "outcome x = fst x"

definition final :: "(error + 'a) \<times> fsys \<times> event list \<Rightarrow> fsys" where
  "final x = fst (snd x)"

definition calls :: "(error + 'a) \<times> fsys \<times> event list \<Rightarrow> event list" where
  "calls x = snd (snd x)"

definition io_return :: "'a \<Rightarrow> 'a io" where
  "io_return x t = (Inr x, t, [])"

definition io_bind :: "'a io \<Rightarrow> ('a \<Rightarrow> 'b io) \<Rightarrow> 'b io" where
  "io_bind m f t =
     (case m t of
        (Inl e, t', es) \<Rightarrow> (Inl e, t', es)
      | (Inr x, t', es) \<Rightarrow> (case f x t' of (r, t'', es') \<Rightarrow> (r, t'', es @ es')))"

text \<open>\<^verbatim>\<open>try { m } catch (e) { h }\<close>\<close>

definition io_catch :: "'a io \<Rightarrow> (error \<Rightarrow> 'a io) \<Rightarrow> 'a io" where
  "io_catch m h t =
     (case m t of
        (Inl e, t', es) \<Rightarrow> (case h e t' of (r, t'', es') \<Rightarrow> (r, t'', es @ es'))
      | (Inr x, t', es) \<Rightarrow> (Inr x, t', es))"

definition io_read :: "event \<Rightarrow> (fsys \<Rightarrow> error + 'a) \<Rightarrow> 'a io" where
  "io_read ev f t = (f t, t, [ev])"

definition io_write :: "event \<Rightarrow> (fsys \<Rightarrow> error + fsys) \<Rightarrow> unit io" where
  "io_write ev f t =
     (case f t of
        Inl e \<Rightarrow> (Inl e, t, [ev])
      | Inr t' \<Rightarrow> (Inr (), t', [ev]))"

definition existsAsync :: "path \<Rightarrow> bool io" where
  "existsAsync p = io_read (Exists p) (\<lambda>t. Inr (exists_path t p))"

definition lstat_isFile :: "path \<Rightarrow> bool io" where
  "lstat_isFile p = io_read (Lstat p) (\<lambda>t. fs_isFile t p)"

definition readdirAsync :: "path \<Rightarrow> string list io" where
  "readdirAsync p = io_read (Readdir p) (\<lambda>t. fs_readdir t p)"

definition readFile :: "path \<Rightarrow> string io" where
  "readFile p = io_read (ReadFile p) (\<lambda>t. fs_readFile t p)"

definition writeFile :: "path \<Rightarrow> string \<Rightarrow> unit io" where
  "writeFile p c = io_write (WriteFile p c) (fs_writeFile p c)"

definition mkdir :: "path \<Rightarrow> unit io" where
  "mkdir p = io_write (Mkdir p) (\<lambda>t. fs_mkdir t p)"

definition ensureDir :: "path \<Rightarrow> unit io" where
  "ensureDir p = io_write (EnsureDir p) (\<lambda>t. fs_ensureDir t p)"

definition remove :: "path \<Rightarrow> unit io" where
  "remove p = io_write (Remove p) (\<lambda>t. fs_remove t p)"

definition unlink :: "path \<Rightarrow> unit io" where
  "unlink p = io_write (Unlink p) (\<lambda>t. fs_unlink t p)"

definition copy :: "path \<Rightarrow> path \<Rightarrow> unit io" where
  "copy src dst = io_write (Copy src dst) (fs_copy src dst)"

subsection \<open>Numbers and their text\<close>

text \<open>
  \<^verbatim>\<open>Number(s)\<close> on a string: white space is trimmed, the empty string is 0, a numeric
  literal (decimal with fraction and exponent, \<^verbatim>\<open>Infinity\<close>, or an unsigned literal in base
  16, 8 or 2) is its value, anything else is \<^verbatim>\<open>NaN\<close>. The value is kept exact: the
  rounding to a double is not modelled, and of the white space only the ASCII characters are.
\<close>

datatype jsnumber = Fin rat | PosInfinity | NegInfinity | NaN

definition is_ws :: "char \<Rightarrow> bool" where
  "is_ws c = (of_char c \<in> {9, 10, 11, 12, 13, 32 :: nat})"

definition trim :: "string \<Rightarrow> string" where
  "trim s = rev (dropWhile is_ws (rev (dropWhile is_ws s)))"

definition digit_in :: "nat \<Rightarrow> char \<Rightarrow> nat option" where
  "digit_in b c =
     (let n = of_char c :: nat;
          v = (if 48 \<le> n \<and> n \<le> 57 then Some (n - 48)
               else if 97 \<le> n \<and> n \<le> 102 then Some (n - 87)
               else if 65 \<le> n \<and> n \<le> 70 then Some (n - 55)
               else None)
      in case v of None \<Rightarrow> None | Some d \<Rightarrow> if d < b then Some d else None)"

fun digits_in :: "nat \<Rightarrow> nat \<Rightarrow> string \<Rightarrow> nat option" where
  "digits_in b acc [] = Some acc"
| "digits_in b acc (c # cs) =
     (case digit_in b c of None \<Rightarrow> None | Some d \<Rightarrow> digits_in b (b * acc + d) cs)"

definition numeral_in :: "nat \<Rightarrow> string \<Rightarrow> nat option" where
  "numeral_in b s = (if s = [] then None else digits_in b 0 s)"

definition split_at :: "(char \<Rightarrow> bool) \<Rightarrow> string \<Rightarrow> string \<times> string option" where
  "split_at P s =
     (case dropWhile (\<lambda>c. \<not> P c) s of
        [] \<Rightarrow> (s, None)
      | c # r \<Rightarrow> (takeWhile (\<lambda>c. \<not> P c) s, Some r))"

definition strip_sign :: "string \<Rightarrow> bool \<times> string" where
  "strip_sign s =
     (case s of
        [] \<Rightarrow> (False, [])
      | c # cs \<Rightarrow> if c = CHR ''-'' then (True, cs)
                 else if c = CHR ''+'' then (False, cs) else (False, s))"

definition exponent_part :: "string option \<Rightarrow> int option" where
  "exponent_part ex =
     (case ex of
        None \<Rightarrow> Some 0
      | Some x \<Rightarrow>
          (let (neg, d) = strip_sign x
           in map_option (\<lambda>n. if neg then - int n else int n) (numeral_in 10 d)))"

definition scale10 :: "nat \<Rightarrow> int \<Rightarrow> rat" where
  "scale10 n k = (if 0 \<le> k then of_nat n * 10 ^ nat k else of_nat n / 10 ^ nat (- k))"

definition unsigned_decimal :: "string \<Rightarrow> rat option" where
  "unsigned_decimal s =
     (let (m, ex) = split_at (\<lambda>c. c = CHR ''e'' \<or> c = CHR ''E'') s;
          (ip, fp) = split_at (\<lambda>c. c = CHR ''.'') m;
          fr = (case fp of None \<Rightarrow> [] | Some f \<Rightarrow> f)
      in case (numeral_in 10 (ip @ fr), exponent_part ex) of
           (Some n, Some k) \<Rightarrow> Some (scale10 n (k - int (length fr)))
         | _ \<Rightarrow> None)"

definition radix_literal :: "string \<Rightarrow> nat option" where
  "radix_literal t =
     (case t of
        z # x # ds \<Rightarrow>
          if z \<noteq> CHR ''0'' then None
          else if x = CHR ''x'' \<or> x = CHR ''X'' then numeral_in 16 ds
          else if x = CHR ''o'' \<or> x = CHR ''O'' then numeral_in 8 ds
          else if x = CHR ''b'' \<or> x = CHR ''B'' then numeral_in 2 ds
          else None
      | _ \<Rightarrow> None)"

definition Number :: "string \<Rightarrow> jsnumber" where
  "Number s =
     (let t = trim s in
      if t = [] then Fin 0
      else (case radix_literal t of
              Some n \<Rightarrow> Fin (of_nat n)
            | None \<Rightarrow>
                (let (neg, u) = strip_sign t in
                 if u = ''Infinity'' then (if neg then NegInfinity else PosInfinity)
                 else (case unsigned_decimal u of
                         None \<Rightarrow> NaN
                       | Some v \<Rightarrow> Fin (if neg then - v else v)))))"

text \<open>
  \<^verbatim>\<open>code.toString()\<close> for an exit code: the decimal digits of an integer, with a minus
  sign when it is negative.
\<close>

fun digits10 :: "nat \<Rightarrow> string" where
  "digits10 n =
     (if n < 10 then [char_of (48 + n)] else digits10 (n div 10) @ [char_of (48 + n mod 10)])"

declare digits10.simps [simp del]

definition toString :: "int \<Rightarrow> string" where
  "toString c = (if c < 0 then CHR ''-'' # digits10 (nat (- c)) else digits10 (nat c))"

subsection \<open>The class\<close>

text \<open>
  Modelled from the spec: the remote cache of the runner options
  (\<^verbatim>\<open>options.remoteCache\<close>) is declared outside these sources. \<^verbatim>\<open>retrieve(hash, dir)\<close>
  populates the local cache directory, so it is any change of the file system, or a
  rejection; \<^verbatim>\<open>store(hash, dir)\<close> mirrors the committed entry to the remote side, so it
  reads the local file system and completes or is rejected.
\<close>

record remote_cache =
  retrieve :: "string \<Rightarrow> path \<Rightarrow> fsys \<Rightarrow> error option \<times> fsys"
  store :: "string \<Rightarrow> path \<Rightarrow> fsys \<Rightarrow> error option"

record runner_options =
  remoteCache :: "remote_cache option"

record Task =
  hash :: string

record CachedResult =
  terminalOutput :: string
  outputsPath :: path
  code :: jsnumber

record cache =
  root_dir :: path
  cachePath :: path
  options :: runner_options

definition terminalOutputsDir :: "cache \<Rightarrow> path" where
  "terminalOutputsDir self = join (cachePath self) [''terminalOutputs'']"

definition latestOutputsHashesDir :: "cache \<Rightarrow> path" where
  "latestOutputsHashesDir self = join (cachePath self) [''latestOutputsHashes'']"

text \<open>
  The constructor: the cache directory is \<^verbatim>\<open>cacheDirectory(root, options.cacheDirectory)\<close>,
  a function of another module, so the directory it returns is an argument here. The
  three directories are created when the object is.
\<close>

definition createCacheDir :: "path \<Rightarrow> path io" where
  "createCacheDir dir = io_bind (ensureDir dir) (\<lambda>u. io_return dir)"

definition createTerminalOutputsDir :: "path \<Rightarrow> path io" where
  "createTerminalOutputsDir cache_path =
     (let p = join cache_path [''terminalOutputs'']
      in io_bind (ensureDir p) (\<lambda>u. io_return p))"

definition ensureLatestOutputsHashesDir :: "path \<Rightarrow> path io" where
  "ensureLatestOutputsHashesDir cache_path =
     (let p = join cache_path [''latestOutputsHashes'']
      in io_bind (ensureDir p) (\<lambda>u. io_return p))"

definition new_Cache :: "path \<Rightarrow> path \<Rightarrow> runner_options \<Rightarrow> cache io" where
  "new_Cache app_root dir opts =
     io_bind (createCacheDir dir) (\<lambda>cache_path.
     io_bind (createTerminalOutputsDir cache_path) (\<lambda>terminal_outputs.
     io_bind (ensureLatestOutputsHashesDir cache_path) (\<lambda>latest_hashes.
       io_return \<lparr>root_dir = app_root, cachePath = cache_path, options = opts\<rparr>)))"

text \<open>
  \<^verbatim>\<open>removeOldCacheRecords\<close> starts, one time in fifty at random, a detached process that
  prunes the cache directory; it reads and changes nothing of the object and is not part
  of the embedding.
\<close>

definition remote_retrieve :: "remote_cache \<Rightarrow> string \<Rightarrow> path \<Rightarrow> unit io" where
  "remote_retrieve rc h dir t =
     (case retrieve rc h dir t of
        (Some e, t') \<Rightarrow> (Inl e, t', [RemoteRetrieve h dir])
      | (None, t') \<Rightarrow> (Inr (), t', [RemoteRetrieve h dir]))"

definition remote_store :: "remote_cache \<Rightarrow> string \<Rightarrow> path \<Rightarrow> unit io" where
  "remote_store rc h dir t =
     (case store rc h dir t of
        Some e \<Rightarrow> (Inl e, t, [RemoteStore h dir])
      | None \<Rightarrow> (Inr (), t, [RemoteStore h dir]))"

definition getFromLocalDir :: "cache \<Rightarrow> Task \<Rightarrow> CachedResult option io" where
  "getFromLocalDir self task =
     (let tdCommit = join (cachePath self) [hash task @ ''.commit''];
          td = join (cachePath self) [hash task]
      in io_bind (existsAsync tdCommit) (\<lambda>committed.
           if committed then
             io_bind (readFile (join td [''terminalOutput''])) (\<lambda>terminalOutput.
             io_bind (io_catch
                        (io_bind (readFile (join td [''code''])) (\<lambda>s. io_return (Number s)))
                        (\<lambda>e. io_return (Fin 0))) (\<lambda>code.
             io_return (Some \<lparr>terminalOutput = terminalOutput,
                              outputsPath = join td [''outputs''],
                              code = code\<rparr>)))
           else io_return None))"

definition get :: "cache \<Rightarrow> Task \<Rightarrow> CachedResult option io" where
  "get self task =
     io_bind (getFromLocalDir self task) (\<lambda>res.
       case (res, remoteCache (options self)) of
         (None, Some rc) \<Rightarrow>
           io_bind (remote_retrieve rc (hash task) (cachePath self)) (\<lambda>u.
             getFromLocalDir self task)
       | _ \<Rightarrow> io_return res)"

text \<open>The loop of \<^verbatim>\<open>put\<close> over the declared outputs, and its body.\<close>

definition put_output :: "cache \<Rightarrow> path \<Rightarrow> string \<Rightarrow> unit io" where
  "put_output self td f =
     (let src = join (root_dir self) [f]
      in io_bind (existsAsync src) (\<lambda>present.
           if present then
             (let cached = join td [''outputs'', f]
              in io_bind (lstat_isFile src) (\<lambda>isFile.
                   let directory = (if isFile then dirname cached else cached)
                   in io_bind (ensureDir directory) (\<lambda>u. copy src cached)))
           else io_return ()))"

fun put_outputs :: "cache \<Rightarrow> path \<Rightarrow> string list \<Rightarrow> unit io" where
  "put_outputs self td [] = io_return ()"
| "put_outputs self td (f # rest) =
     io_bind (put_output self td f) (\<lambda>u. put_outputs self td rest)"

definition put :: "cache \<Rightarrow> Task \<Rightarrow> string option \<Rightarrow> string list \<Rightarrow> int \<Rightarrow> unit io" where
  "put self task terminal_output outputs exit_code =
     (let td = join (cachePath self) [hash task];
          tdCommit = join (cachePath self) [hash task @ ''.commit'']
      in io_bind (remove tdCommit) (\<lambda>u.
         io_bind (remove td) (\<lambda>u.
         io_bind (mkdir td) (\<lambda>u.
         io_bind (writeFile (join td [''terminalOutput''])
                    (case terminal_output of None \<Rightarrow> ''no terminal output'' | Some s \<Rightarrow> s)) (\<lambda>u.
         io_bind (mkdir (join td [''outputs''])) (\<lambda>u.
         io_bind (put_outputs self td outputs) (\<lambda>u.
         io_bind (writeFile (join td [''code'']) (toString exit_code)) (\<lambda>u.
         io_bind (writeFile tdCommit ''true'') (\<lambda>u.
           case remoteCache (options self) of
             None \<Rightarrow> io_return ()
           | Some rc \<Rightarrow> remote_store rc (hash task) (cachePath self))))))))))"

definition temporaryOutputPath :: "cache \<Rightarrow> Task \<Rightarrow> path" where
  "temporaryOutputPath self task = join (terminalOutputsDir self) [hash task]"

definition getFileNameWithLatestRecordedHashForOutput :: "cache \<Rightarrow> string \<Rightarrow> path" where
  "getFileNameWithLatestRecordedHashForOutput self output =
     join (latestOutputsHashesDir self) [join_str ''-'' (split_sep output) @ ''.hash'']"

fun removeRecordedOutputsHashes :: "cache \<Rightarrow> string list \<Rightarrow> unit io" where
  "removeRecordedOutputsHashes self [] = io_return ()"
| "removeRecordedOutputsHashes self (output # rest) =
     (let hashFile = getFileNameWithLatestRecordedHashForOutput self output
      in io_bind (io_catch (unlink hashFile) (\<lambda>e. io_return ())) (\<lambda>u.
           removeRecordedOutputsHashes self rest))"

fun recordOutputsHash :: "cache \<Rightarrow> string list \<Rightarrow> string \<Rightarrow> unit io" where
  "recordOutputsHash self [] h = io_return ()"
| "recordOutputsHash self (output # rest) h =
     (let hashFile = getFileNameWithLatestRecordedHashForOutput self output
      in io_bind (io_catch
                    (io_bind (ensureDir (dirname hashFile)) (\<lambda>u. writeFile hashFile h))
                    (\<lambda>e. io_return ())) (\<lambda>u.
           recordOutputsHash self rest h))"

definition copy_output_from_cache :: "cache \<Rightarrow> CachedResult \<Rightarrow> string \<Rightarrow> unit io" where
  "copy_output_from_cache self cached_result f =
     (let cached = join (outputsPath cached_result) [f]
      in io_bind (existsAsync cached) (\<lambda>present.
           if present then
             io_bind (lstat_isFile cached) (\<lambda>isFile.
               let src = join (root_dir self) [f]
               in io_bind (remove src) (\<lambda>u.
                    let directory = (if isFile then dirname src else src)
                    in io_bind (ensureDir directory) (\<lambda>u. copy cached src)))
           else io_return ()))"

fun copy_outputs_from_cache :: "cache \<Rightarrow> CachedResult \<Rightarrow> string list \<Rightarrow> unit io" where
  "copy_outputs_from_cache self cached_result [] = io_return ()"
| "copy_outputs_from_cache self cached_result (f # rest) =
     io_bind (copy_output_from_cache self cached_result f) (\<lambda>u.
       copy_outputs_from_cache self cached_result rest)"

definition copyFilesFromCache :: "cache \<Rightarrow> string \<Rightarrow> CachedResult \<Rightarrow> string list \<Rightarrow> unit io" where
  "copyFilesFromCache self h cached_result outputs =
     io_bind (removeRecordedOutputsHashes self outputs) (\<lambda>u.
     io_bind (copy_outputs_from_cache self cached_result outputs) (\<lambda>u.
       recordOutputsHash self outputs h))"

definition getLatestRecordedHashForTask :: "cache \<Rightarrow> string \<Rightarrow> string option io" where
  "getLatestRecordedHashForTask self output =
     io_catch
       (io_bind (readFile (getFileNameWithLatestRecordedHashForOutput self output)) (\<lambda>s.
          io_return (Some s)))
       (\<lambda>e. io_return None)"

fun areLatestOutputsHashesDifferentThanTaskHash :: "cache \<Rightarrow> string list \<Rightarrow> string \<Rightarrow> bool io" where
  "areLatestOutputsHashesDifferentThanTaskHash self [] h = io_return False"
| "areLatestOutputsHashesDifferentThanTaskHash self (output # rest) h =
     io_bind (getLatestRecordedHashForTask self output) (\<lambda>recorded.
       if recorded \<noteq> Some h then io_return True
       else areLatestOutputsHashesDifferentThanTaskHash self rest h)"

text \<open>\<^verbatim>\<open>a && b\<close>, \<^verbatim>\<open>a || b\<close> and \<^verbatim>\<open>!a\<close> over awaited conditions: the right operand is
  only awaited when the left one does not decide.\<close>

definition io_and :: "bool io \<Rightarrow> bool io \<Rightarrow> bool io" where
  "io_and a b = io_bind a (\<lambda>x. if x then b else io_return False)"

definition io_or :: "bool io \<Rightarrow> bool io \<Rightarrow> bool io" where
  "io_or a b = io_bind a (\<lambda>x. if x then io_return True else b)"

definition io_not :: "bool io \<Rightarrow> bool io" where
  "io_not a = io_bind a (\<lambda>x. io_return (\<not> x))"

text \<open>The body of the loop of \<^verbatim>\<open>isAnyOutputMissing\<close>: \<open>True\<close> when it returns \<^verbatim>\<open>true\<close>,
  \<open>False\<close> when it goes on to the next output.\<close>

definition output_missing :: "cache \<Rightarrow> CachedResult \<Rightarrow> string \<Rightarrow> bool io" where
  "output_missing self cached_result output =
     (let cacheOutputPath = join (outputsPath cached_result) [output];
          rootOutputPath = join (root_dir self) [output]
      in io_bind (io_and (existsAsync cacheOutputPath) (lstat_isFile cacheOutputPath)) (\<lambda>cachedFile.
         io_bind (if cachedFile
                  then io_and (existsAsync (join (outputsPath cached_result) [output]))
                         (io_not (existsAsync (join (root_dir self) [output])))
                  else io_return False) (\<lambda>fileMissing.
         if fileMissing then io_return True
         else
           io_bind (io_and (existsAsync cacheOutputPath)
                      (io_and (existsAsync rootOutputPath)
                         (io_bind (readdirAsync cacheOutputPath) (\<lambda>a.
                          io_bind (readdirAsync rootOutputPath) (\<lambda>b.
                            io_return (length a \<noteq> length b)))))) (\<lambda>haveDifferentAmountOfFiles.
           io_or (io_and (existsAsync cacheOutputPath) (io_not (existsAsync rootOutputPath)))
             (io_return haveDifferentAmountOfFiles)))))"

fun isAnyOutputMissing :: "cache \<Rightarrow> CachedResult \<Rightarrow> string list \<Rightarrow> bool io" where
  "isAnyOutputMissing self cached_result [] = io_return False"
| "isAnyOutputMissing self cached_result (output # rest) =
     io_bind (output_missing self cached_result output) (\<lambda>missing.
       if missing then io_return True else isAnyOutputMissing self cached_result rest)"

record TaskWithCachedResult =
  task :: Task
  cachedResult :: CachedResult

definition shouldCopyOutputsFromCache :: "cache \<Rightarrow> TaskWithCachedResult \<Rightarrow> string list \<Rightarrow> bool io" where
  "shouldCopyOutputsFromCache self taskWithCachedResult outputs =
     io_or (areLatestOutputsHashesDifferentThanTaskHash self outputs
              (hash (task taskWithCachedResult)))
       (isAnyOutputMissing self (cachedResult taskWithCachedResult) outputs)"

subsection \<open>Vocabulary of the properties\<close>

definition is_remote_call :: "event \<Rightarrow> bool" where
  "is_remote_call e = (case e of RemoteRetrieve h d \<Rightarrow> True | RemoteStore h d \<Rightarrow> True | _ \<Rightarrow> False)"

definition example_cache :: cache where
  "example_cache = \<lparr>root_dir = [''ws''], cachePath = [''cache''], options = \<lparr>remoteCache = None\<rparr>\<rparr>"

definition partial_entry :: fsys where
  "partial_entry =
     [([''ws''], Directory), ([''cache''], Directory), ([''cache'', ''h1''], Directory),
      ([''cache'', ''h1'', ''terminalOutput''], File ''partial''),
      ([''cache'', ''h1'', ''code''], File ''0'')]"

definition marker_only :: fsys where
  "marker_only =
     [([''ws''], Directory), ([''cache''], Directory), ([''cache'', ''h1''], Directory),
      ([''cache'', ''h1.commit''], File ''true'')]"




definition hashes_dir_only :: fsys where
  "hashes_dir_only =
     [([''ws''], Directory), ([''cache''], Directory),
      ([''cache'', ''latestOutputsHashes''], Directory)]"

definition entry_count :: "fsys \<Rightarrow> path \<Rightarrow> nat" where
  "entry_count t p = (case fs_readdir t p of Inl e \<Rightarrow> 0 | Inr names \<Rightarrow> length names)"

definition recorded_hash :: "cache \<Rightarrow> fsys \<Rightarrow> string \<Rightarrow> string option" where
  "recorded_hash self t output =
     (case fs_readFile t (getFileNameWithLatestRecordedHashForOutput self output) of
        Inl e \<Rightarrow> None | Inr s \<Rightarrow> Some s)"

definition hash_stale :: "cache \<Rightarrow> string \<Rightarrow> string list \<Rightarrow> fsys \<Rightarrow> bool" where
  "hash_stale self h outputs t = list_ex (\<lambda>output. recorded_hash self t output \<noteq> Some h) outputs"

definition spec_structurally_missing :: "cache \<Rightarrow> CachedResult \<Rightarrow> fsys \<Rightarrow> string \<Rightarrow> bool" where
  "spec_structurally_missing self cached_result t output =
     (let c = join (outputsPath cached_result) [output];
          r = join (root_dir self) [output]
      in (is_file t c \<and> \<not> exists_path t r) \<or>
         (stat t c = Some Directory \<and> stat t r = Some Directory \<and>
          entry_count t c \<noteq> entry_count t r))"

definition spec_shouldCopyOutputsFromCache ::
  "cache \<Rightarrow> TaskWithCachedResult \<Rightarrow> string list \<Rightarrow> fsys \<Rightarrow> bool" where
  "spec_shouldCopyOutputsFromCache self x outputs t =
     (hash_stale self (hash (task x)) outputs t \<or>
      list_ex (spec_structurally_missing self (cachedResult x) t) outputs)"





definition file_on_both_sides :: fsys where
  "file_on_both_sides =
     [([''ws''], Directory), ([''ws'', ''a.txt''], File ''AAA''), ([''cache''], Directory),
      ([''cache'', ''latestOutputsHashes''], Directory),
      ([''cache'', ''latestOutputsHashes'', ''a.txt.hash''], File ''h1''),
      ([''cache'', ''h1''], Directory),
      ([''cache'', ''h1'', ''terminalOutput''], File ''out''),
      ([''cache'', ''h1'', ''outputs''], Directory),
      ([''cache'', ''h1'', ''outputs'', ''a.txt''], File ''AAA''),
      ([''cache'', ''h1'', ''code''], File ''0''),
      ([''cache'', ''h1.commit''], File ''true'')]"

definition example_hit :: TaskWithCachedResult where
  "example_hit =
     \<lparr>task = \<lparr>hash = ''h1''\<rparr>,
      cachedResult = \<lparr>terminalOutput = ''out'', outputsPath = [''cache'', ''h1'', ''outputs''],
                      code = Fin 0\<rparr>\<rparr>"







definition workspace_with_output :: fsys where
  "workspace_with_output =
     [([''ws''], Directory), ([''cache''], Directory), ([''ws'', ''dist''], Directory),
      ([''ws'', ''dist'', ''a.txt''], File ''AAA'')]"

definition safe_hash :: "string \<Rightarrow> bool" where
  "safe_hash h = (h \<noteq> [] \<and> h \<noteq> ''.'' \<and> h \<noteq> ''..'' \<and> CHR ''/'' \<notin> set h)"

fun climb :: "path \<Rightarrow> string list \<Rightarrow> path option" where
  "climb acc [] = Some acc"
| "climb acc (s # ss) =
     (if s = [] \<or> s = ''.'' then climb acc ss
      else if s = ''..'' then (if acc = [] then None else climb (butlast acc) ss)
      else climb (acc @ [s]) ss)"

definition inside :: "string \<Rightarrow> path option" where
  "inside f = climb [] (split_sep f)"

definition entry_inv :: "fsys \<Rightarrow> path \<Rightarrow> path \<Rightarrow> path \<Rightarrow> fsys \<Rightarrow> bool" where
  "entry_inv t0 ws td mk t =
     ((\<forall>q. \<not> prefix td q \<and> \<not> prefix mk q \<longrightarrow> stat t q = stat t0 q) \<and>
      (\<forall>q. prefix q (td @ [''outputs'']) \<longrightarrow> stat t q = Some Directory) \<and>
      (\<forall>s. s \<noteq> [] \<longrightarrow> stat t (td @ ''outputs'' # s) = None \<or>
                       stat t (td @ ''outputs'' # s) = stat t0 (ws @ s)))"

definition plain_output :: "cache \<Rightarrow> Task \<Rightarrow> string \<Rightarrow> bool" where
  "plain_output self tk f =
     (case inside f of
        None \<Rightarrow> False
      | Some r \<Rightarrow> \<not> prefix (cachePath self @ [hash tk]) (root_dir self @ r) \<and>
                 \<not> prefix (cachePath self @ [hash tk @ ''.commit'']) (root_dir self @ r))"

definition without_remote :: "cache \<Rightarrow> cache" where
  "without_remote self = self\<lparr>options := (options self)\<lparr>remoteCache := None\<rparr>\<rparr>"



definition nested_cache :: cache where
  "nested_cache =
     \<lparr>root_dir = [''ws''], cachePath = [''ws'', ''cache''], options = \<lparr>remoteCache = None\<rparr>\<rparr>"

definition nested_workspace :: fsys where
  "nested_workspace = [([''ws''], Directory), ([''ws'', ''cache''], Directory)]"


section \<open>Properties\<close>

subsection \<open>Lookups\<close>

lemma outcome_simps [simp]: "outcome (r, t, es) = r" "final (r, t, es) = t" "calls (r, t, es) = es"
  by (simp_all add: outcome_def final_def calls_def)

text \<open>
  Claim C1. Without the commit marker \<^verbatim>\<open><hash>.commit\<close> the local lookup returns absent,
  whatever lies under the entry directory: it asks for the marker and nothing else, leaves
  the file system alone, and the absence is a result, not an error.
\<close>

theorem get_local_without_marker:
  "\<not> exists_path t (join (cachePath self) [hash tk @ ''.commit'']) \<Longrightarrow>
   getFromLocalDir self tk t =
     (Inr None, t, [Exists (join (cachePath self) [hash tk @ ''.commit''])])"
  by (simp add: getFromLocalDir_def Let_def io_bind_def existsAsync_def io_read_def io_return_def)

theorem get_local_without_marker_witness:
  "\<not> exists_path partial_entry (join (cachePath example_cache) [hash \<lparr>hash = ''h1''\<rparr> @ ''.commit'']) \<and>
   exists_path partial_entry [''cache'', ''h1'', ''terminalOutput''] \<and>
   getFromLocalDir example_cache \<lparr>hash = ''h1''\<rparr> partial_entry =
     (Inr None, partial_entry, [Exists [''cache'', ''h1.commit'']])"
  using get_local_without_marker [of partial_entry example_cache "\<lparr>hash = ''h1''\<rparr>"]
  by (simp add: example_cache_def partial_entry_def exists_path_def stat_def join_def push_segment_def)

text \<open>
  Claim C6. With the commit marker present and the file \<^verbatim>\<open>terminalOutput\<close> unreadable, the
  local lookup fails with the error of the read, and so does \<^verbatim>\<open>get\<close>, which then does
  not turn to the remote cache: the error is neither swallowed nor turned into a miss.
\<close>

theorem get_unreadable_terminal_output:
  assumes "exists_path t (join (cachePath self) [hash tk @ ''.commit''])"
    and "fs_readFile t (join (join (cachePath self) [hash tk]) [''terminalOutput'']) = Inl e"
  shows "outcome (getFromLocalDir self tk t) = Inl e \<and> outcome (get self tk t) = Inl e \<and>
         filter is_remote_call (calls (get self tk t)) = []"
  using assms
  by (simp add: get_def getFromLocalDir_def Let_def io_bind_def existsAsync_def readFile_def
      io_read_def io_return_def is_remote_call_def)

theorem get_unreadable_terminal_output_witness:
  "exists_path marker_only (join (cachePath example_cache) [hash \<lparr>hash = ''h1''\<rparr> @ ''.commit'']) \<and>
   fs_readFile marker_only (join (join (cachePath example_cache) [hash \<lparr>hash = ''h1''\<rparr>]) [''terminalOutput'']) = Inl ENOENT \<and>
   outcome (getFromLocalDir example_cache \<lparr>hash = ''h1''\<rparr> marker_only) = Inl ENOENT \<and>
   outcome (get example_cache \<lparr>hash = ''h1''\<rparr> marker_only) = Inl ENOENT"
  using get_unreadable_terminal_output [of marker_only example_cache "\<lparr>hash = ''h1''\<rparr>" ENOENT]
  by (simp add: example_cache_def marker_only_def exists_path_def stat_def join_def push_segment_def fs_readFile_def)

lemma getFromLocalDir_calls:
  "\<exists>rs. calls (getFromLocalDir self tk t) =
          Exists (join (cachePath self) [hash tk @ ''.commit'']) # rs \<and>
        (\<forall>e\<in>set rs. \<exists>p. e = ReadFile p)"
  by (auto simp add: getFromLocalDir_def Let_def io_bind_def io_catch_def existsAsync_def
      readFile_def io_read_def io_return_def split: sum.splits prod.splits)

lemma local_calls_props:
  obtains rs where
    "calls (getFromLocalDir self tk t) = Exists (join (cachePath self) [hash tk @ ''.commit'']) # rs"
    "filter is_remote_call rs = []"
    "count_list rs (Exists (join (cachePath self) [hash tk @ ''.commit''])) = 0"
proof -
  obtain rs where rs: "calls (getFromLocalDir self tk t) =
          Exists (join (cachePath self) [hash tk @ ''.commit'']) # rs"
     and rd: "\<forall>e\<in>set rs. \<exists>p. e = ReadFile p"
    using getFromLocalDir_calls by blast
  have "filter is_remote_call rs = []"
    using rd by (auto simp add: filter_empty_conv is_remote_call_def)
  moreover have "count_list rs (Exists (join (cachePath self) [hash tk @ ''.commit''])) = 0"
    using rd by (auto simp add: count_list_0_iff)
  ultimately show ?thesis
    using rs that by blast
qed

lemma remote_retrieve_calls:
  "calls (remote_retrieve rc h d t) = [RemoteRetrieve h d]"
  by (simp add: remote_retrieve_def split: prod.splits option.splits)

text \<open>
  Claim C7. \<^verbatim>\<open>get\<close> consults the local store first. On a miss with a remote cache
  configured it makes exactly one \<^verbatim>\<open>retrieve\<close> for the hash of the task and, when that
  returns, exactly one more local lookup, whose result it returns; a rejected
  \<^verbatim>\<open>retrieve\<close> is passed on. In every other case the first local result is returned as
  it is and the remote cache is not called. The local lookups are counted by their
  check of the commit marker.
\<close>

theorem get_consults_remote_once:
  "(case getFromLocalDir self tk t of
      (Inr None, t1, es1) \<Rightarrow>
        (case remoteCache (options self) of
           None \<Rightarrow>
             get self tk t = (Inr None, t1, es1) \<and>
             filter is_remote_call (calls (get self tk t)) = [] \<and>
             count_list (calls (get self tk t))
               (Exists (join (cachePath self) [hash tk @ ''.commit''])) = 1
         | Some rc \<Rightarrow>
             filter is_remote_call (calls (get self tk t)) =
               [RemoteRetrieve (hash tk) (cachePath self)] \<and>
             (case remote_retrieve rc (hash tk) (cachePath self) t1 of
                (Inl e, t2, es2) \<Rightarrow>
                  get self tk t = (Inl e, t2, es1 @ es2) \<and>
                  count_list (calls (get self tk t))
                    (Exists (join (cachePath self) [hash tk @ ''.commit''])) = 1
              | (Inr u, t2, es2) \<Rightarrow>
                  outcome (get self tk t) = outcome (getFromLocalDir self tk t2) \<and>
                  final (get self tk t) = final (getFromLocalDir self tk t2) \<and>
                  calls (get self tk t) = es1 @ es2 @ calls (getFromLocalDir self tk t2) \<and>
                  count_list (calls (get self tk t))
                    (Exists (join (cachePath self) [hash tk @ ''.commit''])) = 2))
    | (r1, t1, es1) \<Rightarrow>
        get self tk t = (r1, t1, es1) \<and>
        filter is_remote_call (calls (get self tk t)) = [] \<and>
        count_list (calls (get self tk t))
          (Exists (join (cachePath self) [hash tk @ ''.commit''])) = 1)"
proof -
  let ?m = "Exists (join (cachePath self) [hash tk @ ''.commit''])"
  obtain r1 t1 es1 where l1: "getFromLocalDir self tk t = (r1, t1, es1)"
    by (cases "getFromLocalDir self tk t")
  obtain rs1 where e1: "es1 = ?m # rs1"
    and n1: "filter is_remote_call rs1 = []" and c1: "count_list rs1 ?m = 0"
    using local_calls_props [of self tk t] l1 by auto
  have m_local: "\<not> is_remote_call ?m"
    by (simp add: is_remote_call_def)
  show ?thesis
  proof (cases "r1 = Inr None \<and> remoteCache (options self) \<noteq> None")
    case False
    then have g: "get self tk t = (r1, t1, es1)"
      using l1 by (auto simp add: get_def io_bind_def io_return_def split: sum.splits option.splits)
    then show ?thesis
      using False l1 e1 n1 c1 m_local by (auto split: sum.splits option.splits)
  next
    case True
    then obtain rc where rc: "remoteCache (options self) = Some rc" and r1: "r1 = Inr None"
      by auto
    obtain r2 t2 es2 where l2: "remote_retrieve rc (hash tk) (cachePath self) t1 = (r2, t2, es2)"
      by (cases "remote_retrieve rc (hash tk) (cachePath self) t1")
    have e2: "es2 = [RemoteRetrieve (hash tk) (cachePath self)]"
      using remote_retrieve_calls [of rc "hash tk" "cachePath self" t1] l2 by simp
    show ?thesis
    proof (cases r2)
      case (Inl e)
      have g: "get self tk t = (Inl e, t2, es1 @ es2)"
        using l1 r1 rc l2 Inl by (simp add: get_def io_bind_def)
      then show ?thesis
        using l1 r1 rc l2 Inl e1 e2 n1 c1 m_local by (simp add: is_remote_call_def)
    next
      case (Inr u)
      obtain r3 t3 es3 where l3: "getFromLocalDir self tk t2 = (r3, t3, es3)"
        by (cases "getFromLocalDir self tk t2")
      have g: "get self tk t = (r3, t3, es1 @ es2 @ es3)"
        using l1 r1 rc l2 Inr l3 by (simp add: get_def io_bind_def)
      obtain rs3 where e3: "es3 = ?m # rs3"
        and n3: "filter is_remote_call rs3 = []" and c3: "count_list rs3 ?m = 0"
        using local_calls_props [of self tk t2] l3 by auto
      show ?thesis
        using l1 r1 rc l2 Inr l3 g e1 e2 e3 n1 c1 n3 c3 m_local by (simp add: is_remote_call_def)
    qed
  qed
qed

subsection \<open>Exit codes, hash records and staleness\<close>





subsection \<open>Facts about the file system\<close>

lemma stat_Nil [simp]: "stat t [] = Some Directory"
  by (simp add: stat_def)

lemma stat_update:
  "p \<noteq> [] \<Longrightarrow> stat (AList.update p e t) q = (if q = p then Some e else stat t q)"
  by (simp add: stat_def update_conv')

lemma wf_fs_parent:
  assumes "wf_fs t" and "stat t p \<noteq> None" and "p \<noteq> []"
  shows "stat t (butlast p) = Some Directory"
proof -
  from assms obtain e where "map_of t p = Some e"
    by (auto simp add: stat_def)
  then have "(p, e) \<in> set t"
    by (rule map_of_SomeD)
  with assms(1) show ?thesis
    by (auto simp add: wf_fs_def list_all_iff)
qed

lemma wf_fs_ancestors:
  "wf_fs t \<Longrightarrow> stat t (q @ s) \<noteq> None \<Longrightarrow> stat t q = Some Directory \<or> s = []"
proof (induction s rule: rev_induct)
  case Nil
  then show ?case by simp
next
  case (snoc x xs)
  have "stat t (butlast (q @ xs @ [x])) = Some Directory"
    using snoc.prems by (intro wf_fs_parent) auto
  then have "stat t (q @ xs) = Some Directory"
    by (simp add: butlast_append)
  then show ?case
    using snoc.IH snoc.prems(1) by auto
qed

lemma wf_fs_prefix_dir:
  assumes "wf_fs t" and "stat t p = Some Directory" and "prefix q p"
  shows "stat t q = Some Directory"
proof -
  from assms(3) obtain s where "p = q @ s"
    by (auto simp add: prefix_def)
  then show ?thesis
    using wf_fs_ancestors [of t q s] assms(1,2) by auto
qed

lemma ensureDir_present:
  assumes "\<forall>q. prefix q p \<longrightarrow> stat t q = Some Directory"
  shows "fs_ensureDir t p = Inr t"
proof -
  have "\<not> is_file t p"
    using assms by (simp add: is_file_def)
  moreover have "\<not> list_ex (is_file t) (prefixes p)"
    using assms by (simp add: list_ex_iff in_set_prefixes is_file_def)
  moreover have "filter (\<lambda>q. stat t q = None) (prefixes p) = []"
    using assms by (simp add: filter_empty_conv in_set_prefixes)
  ultimately show ?thesis
    by (simp add: fs_ensureDir_def)
qed

lemma record_file_name:
  "getFileNameWithLatestRecordedHashForOutput self ''a/b'' = latestOutputsHashesDir self @ [''a-b.hash'']"
  "getFileNameWithLatestRecordedHashForOutput self ''a-b'' = latestOutputsHashesDir self @ [''a-b.hash'']"
  by (simp_all add: getFileNameWithLatestRecordedHashForOutput_def join_def push_segment_def)

lemma record_one:
  assumes "\<forall>q. prefix q d \<longrightarrow> stat t q = Some Directory"
    and "stat t (d @ [n]) \<noteq> Some Directory"
  shows "io_catch (io_bind (ensureDir (dirname (d @ [n]))) (\<lambda>u. writeFile (d @ [n]) h))
           (\<lambda>e. io_return ()) t =
         (Inr (), AList.update (d @ [n]) (File h) t, [EnsureDir d, WriteFile (d @ [n]) h])"
proof -
  have "fs_ensureDir t d = Inr t"
    using assms(1) by (rule ensureDir_present)
  moreover have "stat t d = Some Directory"
    using assms(1) by simp
  ultimately show ?thesis
    using assms(2)
    by (simp add: io_catch_def io_bind_def ensureDir_def writeFile_def io_write_def dirname_def
        fs_writeFile_def io_return_def)
qed

lemma latest_recorded:
  "outcome (getLatestRecordedHashForTask self output t) =
     Inr (case fs_readFile t (getFileNameWithLatestRecordedHashForOutput self output) of
            Inl e \<Rightarrow> None | Inr s \<Rightarrow> Some s)"
  by (simp add: getLatestRecordedHashForTask_def io_catch_def io_bind_def readFile_def
      io_read_def io_return_def split: sum.splits)

text \<open>
  Claim C9. The two distinct output paths \<^verbatim>\<open>a/b\<close> and \<^verbatim>\<open>a-b\<close> have the same record file
  under \<^verbatim>\<open>latestOutputsHashes/\<close>. So, in a well-formed file system where that directory
  exists, after the hash \<open>h1\<close> is recorded for \<^verbatim>\<open>a/b\<close>, recording \<open>h2\<close> for \<^verbatim>\<open>a-b\<close>
  makes the recorded hash of \<^verbatim>\<open>a/b\<close> read \<open>h2\<close>, and removing the record of \<^verbatim>\<open>a-b\<close>
  makes the one of \<^verbatim>\<open>a/b\<close> absent.
\<close>

theorem hash_record_names_collide:
  assumes "wf_fs t"
    and "stat t (latestOutputsHashesDir self) = Some Directory"
    and "stat t (getFileNameWithLatestRecordedHashForOutput self ''a/b'') \<noteq> Some Directory"
  shows "''a/b'' \<noteq> ''a-b'' \<and>
     getFileNameWithLatestRecordedHashForOutput self ''a/b'' =
       getFileNameWithLatestRecordedHashForOutput self ''a-b'' \<and>
     (let t1 = final (recordOutputsHash self [''a/b''] h1 t);
          t2 = final (recordOutputsHash self [''a-b''] h2 t1);
          t3 = final (removeRecordedOutputsHashes self [''a-b''] t1)
      in outcome (getLatestRecordedHashForTask self ''a/b'' t1) = Inr (Some h1) \<and>
         outcome (getLatestRecordedHashForTask self ''a/b'' t2) = Inr (Some h2) \<and>
         outcome (getLatestRecordedHashForTask self ''a/b'' t3) = Inr None)"
proof -
  let ?d = "latestOutputsHashesDir self"
  let ?f = "?d @ [''a-b.hash'']"
  have dirs: "\<forall>q. prefix q ?d \<longrightarrow> stat t q = Some Directory"
    using assms(1,2) wf_fs_prefix_dir by blast
  have nd: "stat t ?f \<noteq> Some Directory"
    using assms(3) by (simp add: record_file_name)
  define t1 where "t1 = AList.update ?f (File h1) t"
  have r1: "final (recordOutputsHash self [''a/b''] h1 t) = t1"
    using record_one [OF dirs nd, of h1]
    by (simp add: record_file_name io_bind_def io_return_def t1_def Let_def)
  have st1: "stat t1 q = (if q = ?f then Some (File h1) else stat t q)" for q
    by (simp add: t1_def stat_update)
  have dirs1: "\<forall>q. prefix q ?d \<longrightarrow> stat t1 q = Some Directory"
    using dirs by (auto simp add: st1)
  have nd1: "stat t1 ?f \<noteq> Some Directory"
    by (simp add: st1)
  define t2 where "t2 = AList.update ?f (File h2) t1"
  have r2: "final (recordOutputsHash self [''a-b''] h2 t1) = t2"
    using record_one [OF dirs1 nd1, of h2]
    by (simp add: record_file_name io_bind_def io_return_def t2_def Let_def)
  define t3 where "t3 = filter (\<lambda>(q, e). q \<noteq> ?f) t1"
  have r3: "final (removeRecordedOutputsHashes self [''a-b''] t1) = t3"
    by (simp add: record_file_name io_bind_def io_catch_def io_return_def unlink_def
        io_write_def fs_unlink_def st1 t3_def Let_def)
  have "map_of t3 ?f = None"
    by (auto simp add: t3_def map_of_eq_None_iff)
  then have st3: "stat t3 ?f = None"
    by (simp add: stat_def)
  have "outcome (getLatestRecordedHashForTask self ''a/b'' t1) = Inr (Some h1)"
    by (simp add: latest_recorded record_file_name fs_readFile_def st1)
  moreover have "outcome (getLatestRecordedHashForTask self ''a/b'' t2) = Inr (Some h2)"
    by (simp add: latest_recorded record_file_name fs_readFile_def t2_def stat_update)
  moreover have "outcome (getLatestRecordedHashForTask self ''a/b'' t3) = Inr None"
    by (simp add: latest_recorded record_file_name fs_readFile_def st3)
  ultimately show ?thesis
    unfolding Let_def r1 r2 r3 by (simp add: record_file_name)
qed

theorem hash_record_names_collide_witness:
  "wf_fs hashes_dir_only \<and>
   stat hashes_dir_only (latestOutputsHashesDir example_cache) = Some Directory \<and>
   getFileNameWithLatestRecordedHashForOutput example_cache ''a/b'' =
     [''cache'', ''latestOutputsHashes'', ''a-b.hash''] \<and>
   getFileNameWithLatestRecordedHashForOutput example_cache ''a-b'' =
     [''cache'', ''latestOutputsHashes'', ''a-b.hash''] \<and>
   outcome (getLatestRecordedHashForTask example_cache ''a/b''
     (final (recordOutputsHash example_cache [''a-b''] ''h2''
        (final (recordOutputsHash example_cache [''a/b''] ''h1'' hashes_dir_only))))) = Inr (Some ''h2'') \<and>
   outcome (getLatestRecordedHashForTask example_cache ''a/b''
     (final (removeRecordedOutputsHashes example_cache [''a-b'']
        (final (recordOutputsHash example_cache [''a/b''] ''h1'' hashes_dir_only))))) = Inr None"
  using hash_record_names_collide [of hashes_dir_only example_cache "''h1''" "''h2''"]
  by (simp add: wf_fs_def hashes_dir_only_def stat_def latestOutputsHashesDir_def example_cache_def
      join_def push_segment_def getFileNameWithLatestRecordedHashForOutput_def Let_def)







lemma should_copy_rejects_file_on_both_sides:
  "outcome (shouldCopyOutputsFromCache example_cache example_hit [''a.txt''] file_on_both_sides) = Inl ENOTDIR \<and>
   \<not> spec_shouldCopyOutputsFromCache example_cache example_hit [''a.txt''] file_on_both_sides"
  by code_simp



subsection \<open>The order of the calls of put\<close>



lemma io_read_calls: "calls (io_read ev g t) = [ev]"
  by (simp add: io_read_def)















subsection \<open>Paths and the effect of each call\<close>

lemma split_sep_plain: "CHR ''/'' \<notin> set s \<Longrightarrow> split_sep s = [s]"
  by (induction s) auto

lemma join_Cons: "join p (a # args) = join (join p [a]) args"
  by (simp add: join_def)

lemma join_Nil [simp]: "join p [] = p"
  by (simp add: join_def)

lemma join_safe: "safe_hash s \<Longrightarrow> join p [s] = p @ [s]"
  by (simp add: join_def safe_hash_def split_sep_plain push_segment_def)

lemma safe_hash_commit: "safe_hash h \<Longrightarrow> safe_hash (h @ ''.commit'')"
  by (auto simp add: safe_hash_def append_eq_Cons_conv)

lemma join_fixed [simp]:
  "join p [''terminalOutput''] = p @ [''terminalOutput'']"
  "join p [''outputs''] = p @ [''outputs'']"
  "join p [''code''] = p @ [''code'']"
  by (simp_all add: join_def push_segment_def)

lemma climb_foldl:
  "climb acc ss = Some r \<Longrightarrow> foldl push_segment (base @ acc) ss = base @ r"
proof (induction ss arbitrary: acc)
  case Nil
  then show ?case by simp
next
  case (Cons s ss)
  show ?case
  proof (cases "s = [] \<or> s = ''.''")
    case True
    then show ?thesis
      using Cons by (auto simp add: push_segment_def)
  next
    case False
    show ?thesis
    proof (cases "s = ''..''")
      case True
      then have ne: "acc \<noteq> []" and rest: "climb (butlast acc) ss = Some r"
        using Cons.prems by (auto split: if_splits)
      have "push_segment (base @ acc) s = base @ butlast acc"
        using True ne by (simp add: push_segment_def butlast_append)
      then show ?thesis
        using Cons.IH [OF rest] by simp
    next
      case nd: False
      then have rest: "climb (acc @ [s]) ss = Some r"
        using Cons.prems False by auto
      have "push_segment (base @ acc) s = base @ (acc @ [s])"
        using False nd by (simp add: push_segment_def)
      then show ?thesis
        using Cons.IH [OF rest] by simp
    qed
  qed
qed

lemma join_inside: "inside f = Some r \<Longrightarrow> join base [f] = base @ r"
  using climb_foldl [of "[]" "split_sep f" r base] by (simp add: inside_def join_def)

subsection \<open>The file system after each call\<close>

lemma map_of_filter_key:
  "map_of (filter (\<lambda>(q, e). P q) t) x = (if P x then map_of t x else None)"
  by (induction t) auto

lemma stat_remove:
  "fs_remove t p = Inr t' \<Longrightarrow>
   stat t' q = (if q = [] then Some Directory else if prefix p q then None else stat t q)"
  by (auto simp add: fs_remove_def stat_def map_of_filter_key)

lemma stat_mkdir:
  assumes "fs_mkdir t p = Inr t'"
  shows "stat t' q = (if q = p then Some Directory else stat t q)"
    and "stat t p = None" and "stat t (butlast p) = Some Directory"
proof -
  have ne: "p \<noteq> []"
    using assms by (auto simp add: fs_mkdir_def split: if_splits)
  have t': "t' = AList.update p Directory t"
    using assms by (auto simp add: fs_mkdir_def split: if_splits option.splits entry.splits)
  show "stat t' q = (if q = p then Some Directory else stat t q)"
    using ne t' by (simp add: stat_update)
  show "stat t p = None" "stat t (butlast p) = Some Directory"
    using assms by (auto simp add: fs_mkdir_def split: if_splits option.splits entry.splits)
qed

lemma stat_writeFile:
  assumes "fs_writeFile p c t = Inr t'"
  shows "stat t' q = (if q = p then Some (File c) else stat t q)"
    and "stat t (butlast p) = Some Directory"
proof -
  have ne: "p \<noteq> []"
    using assms by (auto simp add: fs_writeFile_def split: if_splits)
  have t': "t' = AList.update p (File c) t"
    using assms by (auto simp add: fs_writeFile_def split: if_splits option.splits entry.splits)
  show "stat t' q = (if q = p then Some (File c) else stat t q)"
    using ne t' by (simp add: stat_update)
  show "stat t (butlast p) = Some Directory"
    using assms by (auto simp add: fs_writeFile_def split: if_splits option.splits entry.splits)
qed

lemma map_of_const_keys:
  "map_of (map (\<lambda>q. (q, v)) ks) x = (if x \<in> set ks then Some v else None)"
  by (induction ks) auto

lemma stat_ensureDir:
  assumes "fs_ensureDir t p = Inr t'"
  shows "stat t' q = (if prefix q p \<and> stat t q = None then Some Directory else stat t q)"
    and "\<And>q. prefix q p \<Longrightarrow> \<not> is_file t q"
proof -
  have t': "t' = map (\<lambda>q. (q, Directory)) (filter (\<lambda>q. stat t q = None) (prefixes p)) @ t"
    using assms by (auto simp add: fs_ensureDir_def split: if_splits)
  show "stat t' q = (if prefix q p \<and> stat t q = None then Some Directory else stat t q)"
    by (auto simp add: t' stat_def map_add_def map_of_const_keys in_set_prefixes
        split: option.splits)
  show "\<And>q. prefix q p \<Longrightarrow> \<not> is_file t q"
    using assms by (auto simp add: fs_ensureDir_def list_ex_iff in_set_prefixes split: if_splits)
qed

lemma map_of_moved:
  "map_of (map (\<lambda>(q, e'). (dst @ drop (length src) q, e'))
             (filter (\<lambda>(q, e'). strict_prefix src q) t)) x =
   (if strict_prefix dst x then map_of t (src @ drop (length dst) x) else None)"
proof (induction t)
  case Nil
  then show ?case by simp
next
  case (Cons a t)
  obtain q e' where a: "a = (q, e')" by (cases a)
  show ?case
  proof (cases "strict_prefix src q")
    case True
    then obtain s where q: "q = src @ s" and s: "s \<noteq> []"
      by (auto simp add: strict_prefix_def prefix_def)
    have "(dst @ s = x) = (strict_prefix dst x \<and> src @ drop (length dst) x = q)"
      using s by (auto simp add: q strict_prefix_def prefix_def)
    then show ?thesis
      using Cons a True q by auto
  next
    case False
    then have "strict_prefix dst x \<Longrightarrow> src @ drop (length dst) x \<noteq> q"
      by (auto simp add: strict_prefix_def prefix_def)
    then show ?thesis
      using Cons a False by auto
  qed
qed

lemma stat_copy:
  assumes "fs_copy src dst t = Inr t'"
  shows "\<exists>e t1. stat t src = Some e \<and> src \<noteq> dst \<and>
     \<not> (e = Directory \<and> prefix src dst) \<and> \<not> clash e (stat t dst) \<and>
     fs_ensureDir t (butlast dst) = Inr t1 \<and>
     (\<forall>x. stat t' x =
           (if x = dst then Some e
            else if strict_prefix dst x
                 then (case stat t1 (src @ drop (length dst) x) of
                         Some e' \<Rightarrow> Some e' | None \<Rightarrow> stat t1 x)
                 else stat t1 x))"
proof -
  from assms obtain e where e: "stat t src = Some e"
    by (auto simp add: fs_copy_def split: option.splits)
  from assms e have 1: "src \<noteq> dst" "\<not> (e = Directory \<and> prefix src dst)" "\<not> clash e (stat t dst)"
    by (auto simp add: fs_copy_def split: if_splits)
  from assms e 1 obtain t1 where t1: "fs_ensureDir t (butlast dst) = Inr t1"
    by (auto simp add: fs_copy_def split: if_splits sum.splits)
  from assms e 1 t1 have t': "t' = (dst, e) #
       map (\<lambda>(q, e'). (dst @ drop (length src) q, e')) (filter (\<lambda>(q, e'). strict_prefix src q) t1) @ t1"
    by (auto simp add: fs_copy_def split: if_splits)
  have root: "dst = [] \<Longrightarrow> e = Directory"
    using 1(3) by (auto simp add: clash_def split: entry.splits)
  have "stat t' x =
           (if x = dst then Some e
            else if strict_prefix dst x
                 then (case stat t1 (src @ drop (length dst) x) of
                         Some e' \<Rightarrow> Some e' | None \<Rightarrow> stat t1 x)
                 else stat t1 x)" for x
  proof (cases "x = []")
    case True
    then show ?thesis
      using root by (auto simp add: stat_def)
  next
    case False
    then have "strict_prefix dst x \<Longrightarrow> src @ drop (length dst) x \<noteq> []"
      by (auto simp add: strict_prefix_def prefix_def)
    then show ?thesis
      using False
      by (auto simp add: t' stat_def map_add_def map_of_moved split: option.splits)
  qed
  then show ?thesis
    using e 1 t1 by blast
qed

lemma prefix_comparable:
  "prefix a (b @ s) \<Longrightarrow> prefix a b \<or> prefix b a"
  by (metis prefix_append prefixI)

lemma copy_into_entry:
  fixes t0 t t1 t' :: fsys and ws cp r :: path
  assumes outs_def: "outs = cp @ [h, ''outputs'']"
    and wf: "wf_fs t0"
    and inv: "entry_inv t0 ws (cp @ [h]) (cp @ [m]) t"
    and src: "stat t0 (ws @ r) = Some e"
    and out_td: "\<not> prefix (cp @ [h]) (ws @ r)"
    and out_mk: "\<not> prefix (cp @ [m]) (ws @ r)"
    and ens: "fs_ensureDir t (case e of File c \<Rightarrow> butlast (outs @ r) | Directory \<Rightarrow> outs @ r) = Inr t1"
    and cpy: "fs_copy (ws @ r) (outs @ r) t1 = Inr t'"
  shows "entry_inv t0 ws (cp @ [h]) (cp @ [m]) t'"
    and "\<And>q. \<not> strict_prefix outs q \<Longrightarrow> stat t' q = stat t q"
    and "\<And>q. stat t q \<noteq> None \<Longrightarrow> stat t' q = stat t q"
    and "\<And>s. stat t' (outs @ r @ s) = stat t0 (ws @ r @ s)"
proof -
  let ?td = "cp @ [h]"
  let ?mk = "cp @ [m]"
  let ?src = "ws @ r"
  let ?dst = "outs @ r"
  let ?dir = "case e of File c \<Rightarrow> butlast (outs @ r) | Directory \<Rightarrow> outs @ r"
  have outs: "outs = ?td @ [''outputs'']"
    by (simp add: outs_def)
  have i1: "\<And>q. \<not> prefix ?td q \<Longrightarrow> \<not> prefix ?mk q \<Longrightarrow> stat t q = stat t0 q"
    and i2: "\<And>q. prefix q outs \<Longrightarrow> stat t q = Some Directory"
    and i3: "\<And>s. s \<noteq> [] \<Longrightarrow> stat t (outs @ s) = None \<or> stat t (outs @ s) = stat t0 (ws @ s)"
    using inv by (auto simp add: entry_inv_def outs)
  have src_t: "stat t ?src = Some e"
    using i1 [of ?src] out_td out_mk src by simp
  obtain e1 t2 where c1: "stat t1 ?src = Some e1" and c2: "?src \<noteq> ?dst"
    and c3: "\<not> (e1 = Directory \<and> prefix ?src ?dst)" and c4: "\<not> clash e1 (stat t1 ?dst)"
    and c5: "fs_ensureDir t1 (butlast ?dst) = Inr t2"
    and c6: "\<forall>x. stat t' x =
           (if x = ?dst then Some e1
            else if strict_prefix ?dst x
                 then (case stat t2 (?src @ drop (length ?dst) x) of
                         Some e' \<Rightarrow> Some e' | None \<Rightarrow> stat t2 x)
                 else stat t2 x)"
    using stat_copy [OF cpy] by (elim exE conjE) (rule that)
  have st1: "\<And>q. stat t1 q = (if prefix q ?dir \<and> stat t q = None then Some Directory else stat t q)"
    using ens by (rule stat_ensureDir(1))
  have keep1: "\<And>q. stat t q \<noteq> None \<Longrightarrow> stat t1 q = stat t q"
    by (simp add: st1)
  have dir_under: "prefix ?dir ?dst"
    by (cases e) (simp_all add: prefixeq_butlast)
  have new1: "stat t1 q = Some Directory \<and> (\<exists>p. q = outs @ p \<and> p \<noteq> [] \<and> prefix p r \<and>
      (p = r \<longrightarrow> e = Directory))" if ch: "stat t1 q \<noteq> stat t q" for q
  proof -
    have pq: "prefix q ?dir" and none: "stat t q = None" and d: "stat t1 q = Some Directory"
      using ch by (auto simp add: st1 split: if_splits)
    have "prefix q ?dst"
      using pq dir_under by (rule prefix_order.trans)
    moreover have "\<not> prefix q outs"
      using i2 none by fastforce
    ultimately obtain p where p: "q = outs @ p" "p \<noteq> []" "prefix p r"
      by (auto simp add: prefix_append)
    have "e = Directory" if "p = r"
    proof (cases e)
      case (File c)
      then have "prefix (outs @ r) (butlast (outs @ r))"
        using pq p that by simp
      then have "length (outs @ r) \<le> length (butlast (outs @ r))"
        by (rule prefix_length_le)
      then show ?thesis
        by (simp add: outs_def)
    next
      case Directory
      then show ?thesis by simp
    qed
    then show ?thesis
      using d p by blast
  qed
  have e1: "e1 = e"
    using c1 keep1 [of ?src] src_t by simp
  have dir_outs: "e = Directory" if "r = []"
  proof -
    have "stat t1 outs = Some Directory"
      using keep1 [of outs] i2 [of outs] by simp
    then show ?thesis
      using c4 that e1 by (auto simp add: clash_def split: entry.splits)
  qed
  have src_td: "\<not> prefix ?src ?td"
  proof
    assume a: "prefix ?src ?td"
    then have po: "prefix ?src outs"
      unfolding outs by (rule prefix_prefix)
    then have "e = Directory"
      using i2 [of ?src] src_t by simp
    moreover have "prefix ?src ?dst"
      using po by (rule prefix_prefix)
    ultimately show False
      using c3 e1 by simp
  qed
  have outside: "\<not> prefix ?td (?src @ s) \<and> \<not> prefix ?mk (?src @ s)" for s
  proof -
    have "\<not> prefix ?td (?src @ s)"
      using prefix_comparable [of ?td ?src s] out_td src_td by blast
    moreover have "\<not> prefix ?mk (?src @ s)"
    proof
      assume "prefix ?mk (?src @ s)"
      then have "prefix ?src ?mk"
        using prefix_comparable [of ?mk ?src s] out_mk by blast
      then have "prefix ?src cp \<or> ?src = ?mk"
        by (auto simp add: prefix_snoc)
      then have "prefix ?src cp"
        using out_mk by auto
      then have "prefix ?src ?td"
        by (rule prefix_prefix)
      then show False
        using src_td by simp
    qed
    ultimately show ?thesis by simp
  qed
  have src_s: "stat t (?src @ s) = stat t0 (?src @ s)" for s
    using i1 [of "?src @ s"] outside [of s] by simp
  have st1_src: "stat t1 (?src @ s) = stat t (?src @ s)" for s
  proof (rule ccontr)
    assume "stat t1 (?src @ s) \<noteq> stat t (?src @ s)"
    then obtain p where "?src @ s = outs @ p"
      using new1 [of "?src @ s"] by blast
    then have "prefix ?td (?src @ s)"
      by (simp add: outs)
    then show False
      using outside [of s] by simp
  qed
  have st2: "stat t2 q = stat t1 q" for q
  proof -
    have "stat t1 q \<noteq> None" if "prefix q (butlast ?dst)"
    proof -
      have "prefix q ?dir"
        using that by (cases e) (auto intro: prefix_order.trans prefixeq_butlast)
      then show ?thesis
        by (simp add: st1)
    qed
    then show ?thesis
      using stat_ensureDir(1) [OF c5, of q] by auto
  qed
  have wfp: "stat t0 (ws @ p) = Some Directory" if pr: "prefix p r" "p \<noteq> r" for p
  proof -
    obtain s where s: "r = p @ s" "s \<noteq> []"
      using pr by (auto simp add: prefix_def)
    then show ?thesis
      using wf_fs_ancestors [OF wf, of "ws @ p" s] src by simp
  qed
  have i3_1: "stat t1 (outs @ s) = None \<or> stat t1 (outs @ s) = stat t0 (ws @ s)" if "s \<noteq> []" for s
  proof (cases "stat t1 (outs @ s) = stat t (outs @ s)")
    case True
    then show ?thesis
      using i3 [OF that] by simp
  next
    case False
    then have d: "stat t1 (outs @ s) = Some Directory" and p: "prefix s r" "s = r \<longrightarrow> e = Directory"
      using new1 [of "outs @ s"] by auto
    have "stat t0 (ws @ s) = Some Directory"
      using p wfp [of s] src by (cases "s = r") auto
    then show ?thesis
      using d by simp
  qed
  have P: "stat t' (?dst @ s) = stat t0 (?src @ s)" for s
  proof (cases "s = []")
    case True
    then show ?thesis
      using c6 [rule_format, of ?dst] e1 src by simp
  next
    case False
    have "stat t' (?dst @ s) =
        (case stat t2 (?src @ s) of Some e' \<Rightarrow> Some e' | None \<Rightarrow> stat t2 (?dst @ s))"
      using c6 [rule_format, of "?dst @ s"] False by (simp add: strict_prefix_def)
    moreover have "stat t2 (?src @ s) = stat t0 (?src @ s)"
      using st2 st1_src src_s by simp
    moreover have "stat t2 (?dst @ s) = None \<or> stat t2 (?dst @ s) = stat t0 (?src @ s)"
      using i3_1 [of "r @ s"] False st2 by simp
    ultimately show ?thesis
      by (auto split: option.splits)
  qed
  have rest: "stat t' q = stat t1 q" if "\<not> prefix ?dst q" for q
    using c6 [rule_format, of q] that st2 by (auto simp add: strict_prefix_def)
  show F: "stat t' q = stat t q" if "\<not> strict_prefix outs q" for q
  proof (cases "prefix ?dst q")
    case True
    then have "q = outs" "r = []"
      using that by (auto simp add: prefix_def strict_prefix_def)
    then show ?thesis
      using P [of "[]"] src dir_outs i2 [of outs] by simp
  next
    case False
    have "stat t1 q = stat t q"
    proof (rule ccontr)
      assume "stat t1 q \<noteq> stat t q"
      then obtain p where "q = outs @ p" "p \<noteq> []"
        using new1 [of q] by blast
      then have "strict_prefix outs q"
        by (simp add: strict_prefix_def)
      then show False
        using that by simp
    qed
    then show ?thesis
      using rest [OF False] by simp
  qed
  show M: "stat t' q = stat t q" if "stat t q \<noteq> None" for q
  proof (cases "prefix ?dst q")
    case True
    then obtain s where q: "q = ?dst @ s"
      by (auto simp add: prefix_def)
    show ?thesis
    proof (cases "r @ s = []")
      case True
      then show ?thesis
        using F [of q] q by (simp add: strict_prefix_def)
    next
      case False
      then show ?thesis
        using i3 [of "r @ s"] that P [of s] q by auto
    qed
  next
    case False
    then show ?thesis
      using rest [OF False] keep1 [OF that] by simp
  qed
  show "stat t' (outs @ r @ s) = stat t0 (ws @ r @ s)" for s
    using P [of s] by simp
  have "stat t' q = stat t0 q" if "\<not> prefix ?td q" "\<not> prefix ?mk q" for q
  proof -
    have "\<not> strict_prefix outs q"
      using that(1) by (auto simp add: outs strict_prefix_def prefix_def)
    then show ?thesis
      using F i1 that by simp
  qed
  moreover have "stat t' q = Some Directory" if "prefix q outs" for q
    using M [of q] i2 [OF that] by simp
  moreover have "stat t' (outs @ s) = None \<or> stat t' (outs @ s) = stat t0 (ws @ s)" if "s \<noteq> []" for s
  proof (cases "prefix r s")
    case True
    then obtain s' where "s = r @ s'"
      by (auto simp add: prefix_def)
    then show ?thesis
      using P [of s'] by simp
  next
    case False
    then have "\<not> prefix ?dst (outs @ s)"
      by simp
    then show ?thesis
      using rest i3_1 [OF that] by simp
  qed
  ultimately show "entry_inv t0 ws (cp @ [h]) (cp @ [m]) t'"
    by (simp add: entry_inv_def outs [symmetric]) (simp add: outs)
qed

lemma io_bind_success:
  assumes "io_bind m f t = (Inr y, t', es)"
  shows "\<exists>x t1 es1 es2. m t = (Inr x, t1, es1) \<and> f x t1 = (Inr y, t', es2) \<and> es = es1 @ es2"
  using assms by (auto simp add: io_bind_def split: prod.splits sum.splits)

lemma io_write_success:
  "io_write ev g t = (Inr u, t', es) \<Longrightarrow> g t = Inr t'"
  by (auto simp add: io_write_def split: sum.splits)

lemma io_bind_assoc:
  "io_bind (io_bind m f) g = io_bind m (\<lambda>x. io_bind (f x) g)"
  by (rule ext) (auto simp add: io_bind_def split: prod.splits sum.splits)

lemma io_bind_return: "io_bind (io_return x) f = f x"
  by (rule ext) (simp add: io_bind_def io_return_def split: prod.splits)

lemma bind_exists:
  "io_bind (existsAsync p) f t =
     (case f (exists_path t p) t of (r, t2, es2) \<Rightarrow> (r, t2, Exists p # es2))"
  by (simp add: io_bind_def existsAsync_def io_read_def)

lemma bind_lstat:
  "stat t p = Some e \<Longrightarrow>
   io_bind (lstat_isFile p) f t =
     (case f (case e of File c \<Rightarrow> True | Directory \<Rightarrow> False) t of
        (r, t2, es2) \<Rightarrow> (r, t2, Lstat p # es2))"
  by (simp add: io_bind_def lstat_isFile_def io_read_def fs_isFile_def split: entry.splits)

lemma put_output_absent:
  "\<not> exists_path t (join (root_dir self) [f]) \<Longrightarrow>
   put_output self td f t = (Inr (), t, [Exists (join (root_dir self) [f])])"
  by (simp add: put_output_def Let_def bind_exists io_return_def)

lemma put_output_present:
  assumes "stat t (join (root_dir self) [f]) = Some e"
  shows "put_output self td f t =
     (case io_bind (ensureDir (case e of File c \<Rightarrow> butlast (join td [''outputs'', f])
                               | Directory \<Rightarrow> join td [''outputs'', f]))
             (\<lambda>u. copy (join (root_dir self) [f]) (join td [''outputs'', f])) t of
        (r, t2, es2) \<Rightarrow>
          (r, t2, [Exists (join (root_dir self) [f]), Lstat (join (root_dir self) [f])] @ es2))"
proof -
  have ex: "exists_path t (join (root_dir self) [f])"
    using assms by (simp add: exists_path_def)
  show ?thesis
    unfolding put_output_def Let_def
    by (cases e) (simp_all add: bind_exists ex bind_lstat [OF assms] dirname_def split: prod.splits)
qed

lemma put_output_step:
  assumes wf: "wf_fs t0"
    and inv: "entry_inv t0 (root_dir self) (cp @ [h]) (cp @ [m]) t"
    and r: "inside f = Some r"
    and out_td: "\<not> prefix (cp @ [h]) (root_dir self @ r)"
    and out_mk: "\<not> prefix (cp @ [m]) (root_dir self @ r)"
    and run: "put_output self (cp @ [h]) f t = (Inr u, t', es)"
  shows "entry_inv t0 (root_dir self) (cp @ [h]) (cp @ [m]) t'"
    and "\<And>q. \<not> strict_prefix (cp @ [h, ''outputs'']) q \<Longrightarrow> stat t' q = stat t q"
    and "\<And>q. stat t q \<noteq> None \<Longrightarrow> stat t' q = stat t q"
    and "\<And>s. stat t0 (root_dir self @ r) \<noteq> None \<Longrightarrow>
            stat t' (cp @ [h, ''outputs''] @ r @ s) = stat t0 (root_dir self @ r @ s)"
    and "stat t0 (root_dir self @ r) = None \<Longrightarrow> t' = t"
proof -
  let ?src = "root_dir self @ r"
  let ?dst = "cp @ [h, ''outputs''] @ r"
  have j1: "join (root_dir self) [f] = ?src"
    using r by (rule join_inside)
  have j2: "join (cp @ [h]) [''outputs'', f] = ?dst"
    using join_inside [OF r, of "cp @ [h, ''outputs'']"]
    by (simp add: join_Cons [of "cp @ [h]" "''outputs''" "[f]"])
  have same: "stat t ?src = stat t0 ?src"
    using inv out_td out_mk by (simp add: entry_inv_def)
  have all: "entry_inv t0 (root_dir self) (cp @ [h]) (cp @ [m]) t' \<and>
     (\<forall>q. \<not> strict_prefix (cp @ [h, ''outputs'']) q \<longrightarrow> stat t' q = stat t q) \<and>
     (\<forall>q. stat t q \<noteq> None \<longrightarrow> stat t' q = stat t q) \<and>
     (\<forall>s. stat t0 ?src \<noteq> None \<longrightarrow> stat t' (?dst @ s) = stat t0 (?src @ s)) \<and>
     (stat t0 ?src = None \<longrightarrow> t' = t)"
  proof (cases "stat t0 ?src")
    case None
    then have "\<not> exists_path t (join (root_dir self) [f])"
      using same by (simp add: j1 exists_path_def)
    then have "t' = t"
      using run put_output_absent [of t self f "cp @ [h]"] by simp
    then show ?thesis
      using inv None by simp
  next
    case (Some e)
    let ?dir = "case e of File c \<Rightarrow> butlast ?dst | Directory \<Rightarrow> ?dst"
    have "stat t (join (root_dir self) [f]) = Some e"
      using same Some by (simp add: j1)
    then have "put_output self (cp @ [h]) f t =
       (case io_bind (ensureDir ?dir) (\<lambda>u. copy ?src ?dst) t of
          (r, t2, es2) \<Rightarrow> (r, t2, [Exists ?src, Lstat ?src] @ es2))"
      using put_output_present [of t self f e "cp @ [h]"] by (simp only: j1 j2)
    then obtain es2 where "io_bind (ensureDir ?dir) (\<lambda>u. copy ?src ?dst) t = (Inr u, t', es2)"
      using run by (auto split: prod.splits)
    then obtain t1 where ens: "ensureDir ?dir t = (Inr (), t1, [EnsureDir ?dir])"
      and cpy: "copy ?src ?dst t1 = (Inr u, t', [Copy ?src ?dst])"
      using io_bind_success [of "ensureDir ?dir" "\<lambda>u. copy ?src ?dst" t u t' es2]
      by (auto simp add: ensureDir_def copy_def io_write_def split: sum.splits)
    have ens': "fs_ensureDir t (case e of File c \<Rightarrow> butlast ((cp @ [h, ''outputs'']) @ r)
                                | Directory \<Rightarrow> (cp @ [h, ''outputs'']) @ r) = Inr t1"
      using ens io_write_success [of "EnsureDir ?dir" "\<lambda>t. fs_ensureDir t ?dir" t]
      by (cases e) (simp_all add: ensureDir_def)
    have cpy': "fs_copy ?src ((cp @ [h, ''outputs'']) @ r) t1 = Inr t'"
      using cpy io_write_success [of "Copy ?src ?dst" "fs_copy ?src ?dst" t1]
      by (simp add: copy_def)
    note step = copy_into_entry [OF refl wf inv Some out_td out_mk ens' cpy']
    show ?thesis
      using step(1) step(2) step(3) step(4) Some by simp
  qed
  then show "entry_inv t0 (root_dir self) (cp @ [h]) (cp @ [m]) t'"
    and "\<And>q. \<not> strict_prefix (cp @ [h, ''outputs'']) q \<Longrightarrow> stat t' q = stat t q"
    and "\<And>q. stat t q \<noteq> None \<Longrightarrow> stat t' q = stat t q"
    and "\<And>s. stat t0 (root_dir self @ r) \<noteq> None \<Longrightarrow>
            stat t' (cp @ [h, ''outputs''] @ r @ s) = stat t0 (root_dir self @ r @ s)"
    and "stat t0 (root_dir self @ r) = None \<Longrightarrow> t' = t"
    by simp_all
qed

lemma put_outputs_inv:
  assumes wf: "wf_fs t0"
    and inv: "entry_inv t0 (root_dir self) (cp @ [h]) (cp @ [m]) t"
    and plain: "\<forall>f\<in>set outputs. \<exists>r. inside f = Some r \<and>
          \<not> prefix (cp @ [h]) (root_dir self @ r) \<and> \<not> prefix (cp @ [m]) (root_dir self @ r)"
    and run: "put_outputs self (cp @ [h]) outputs t = (Inr u, t', es)"
  shows "entry_inv t0 (root_dir self) (cp @ [h]) (cp @ [m]) t' \<and>
     (\<forall>q. \<not> strict_prefix (cp @ [h, ''outputs'']) q \<longrightarrow> stat t' q = stat t q) \<and>
     (\<forall>q. stat t q \<noteq> None \<longrightarrow> stat t' q = stat t q) \<and>
     (\<forall>f\<in>set outputs. \<forall>r s. inside f = Some r \<longrightarrow> stat t0 (root_dir self @ r) \<noteq> None \<longrightarrow>
         stat t' (cp @ [h, ''outputs''] @ r @ s) = stat t0 (root_dir self @ r @ s))"
  using inv plain run
proof (induction outputs arbitrary: t u es)
  case Nil
  then show ?case
    by (simp add: io_return_def)
next
  case (Cons f rest)
  let ?ws = "root_dir self"
  let ?outs = "cp @ [h, ''outputs'']"
  obtain r where r: "inside f = Some r" and out_td: "\<not> prefix (cp @ [h]) (?ws @ r)"
    and out_mk: "\<not> prefix (cp @ [m]) (?ws @ r)"
    using Cons.prems(2) by auto
  obtain u1 t1 es1 es2 where 1: "put_output self (cp @ [h]) f t = (Inr u1, t1, es1)"
    and 2: "put_outputs self (cp @ [h]) rest t1 = (Inr u, t', es2)"
    using io_bind_success [of "put_output self (cp @ [h]) f"
        "\<lambda>u. put_outputs self (cp @ [h]) rest" t u t' es] Cons.prems(3)
    by auto
  note s1 = put_output_step [OF wf Cons.prems(1) r out_td out_mk 1]
  have ih: "entry_inv t0 ?ws (cp @ [h]) (cp @ [m]) t' \<and>
     (\<forall>q. \<not> strict_prefix ?outs q \<longrightarrow> stat t' q = stat t1 q) \<and>
     (\<forall>q. stat t1 q \<noteq> None \<longrightarrow> stat t' q = stat t1 q) \<and>
     (\<forall>f\<in>set rest. \<forall>r s. inside f = Some r \<longrightarrow> stat t0 (?ws @ r) \<noteq> None \<longrightarrow>
         stat t' (?outs @ r @ s) = stat t0 (?ws @ r @ s))"
    using Cons.IH [OF s1(1) _ 2] Cons.prems(2) by simp
  have frame: "\<forall>q. \<not> strict_prefix ?outs q \<longrightarrow> stat t' q = stat t q"
    using ih s1(2) by simp
  have mono: "\<forall>q. stat t q \<noteq> None \<longrightarrow> stat t' q = stat t q"
    using ih s1(3) by fastforce
  have here: "stat t' (?outs @ r @ s) = stat t0 (?ws @ r @ s)"
    if ex: "stat t0 (?ws @ r) \<noteq> None" for s
  proof (cases "stat t0 (?ws @ r @ s)")
    case (Some v)
    then have "stat t1 (?outs @ r @ s) = Some v"
      using s1(4) [OF ex, of s] by simp
    then show ?thesis
      using ih Some by simp
  next
    case None
    have t1: "stat t1 (?outs @ r @ s) = None"
      using s1(4) [OF ex, of s] None by simp
    have "r @ s \<noteq> []"
    proof
      assume "r @ s = []"
      then have "stat t1 ?outs = None"
        using t1 by simp
      moreover have "stat t1 ?outs = Some Directory"
        using s1(1) by (simp add: entry_inv_def)
      ultimately show False by simp
    qed
    then have "stat t' (?outs @ r @ s) = None \<or> stat t' (?outs @ r @ s) = stat t0 (?ws @ r @ s)"
      using ih by (simp add: entry_inv_def)
    then show ?thesis
      using None by auto
  qed
  have "\<forall>g\<in>set (f # rest). \<forall>r' s. inside g = Some r' \<longrightarrow> stat t0 (?ws @ r') \<noteq> None \<longrightarrow>
         stat t' (?outs @ r' @ s) = stat t0 (?ws @ r' @ s)"
    using here r ih by auto
  then show ?case
    using ih frame mono by simp
qed

lemma put_outputs_skip:
  assumes wf: "wf_fs t0"
    and inv: "entry_inv t0 (root_dir self) (cp @ [h]) (cp @ [m]) t"
    and plain: "\<forall>f\<in>set outputs. \<exists>r. inside f = Some r \<and>
          \<not> prefix (cp @ [h]) (root_dir self @ r) \<and> \<not> prefix (cp @ [m]) (root_dir self @ r)"
  shows "outcome (put_outputs self (cp @ [h]) outputs t) =
         outcome (put_outputs self (cp @ [h])
           (filter (\<lambda>f. exists_path t0 (join (root_dir self) [f])) outputs) t) \<and>
         final (put_outputs self (cp @ [h]) outputs t) =
         final (put_outputs self (cp @ [h])
           (filter (\<lambda>f. exists_path t0 (join (root_dir self) [f])) outputs) t)"
  using inv plain
proof (induction outputs arbitrary: t)
  case Nil
  then show ?case by simp
next
  case (Cons f rest)
  let ?ws = "root_dir self"
  let ?present = "\<lambda>f. exists_path t0 (join ?ws [f])"
  obtain r where r: "inside f = Some r" and out_td: "\<not> prefix (cp @ [h]) (?ws @ r)"
    and out_mk: "\<not> prefix (cp @ [m]) (?ws @ r)"
    using Cons.prems(2) by auto
  have j: "join ?ws [f] = ?ws @ r"
    using r by (rule join_inside)
  have same: "stat t (?ws @ r) = stat t0 (?ws @ r)"
    using Cons.prems(1) out_td out_mk by (simp add: entry_inv_def)
  obtain r1 t1 es1 where 1: "put_output self (cp @ [h]) f t = (r1, t1, es1)"
    by (cases "put_output self (cp @ [h]) f t")
  show ?case
  proof (cases "?present f")
    case False
    then have "put_output self (cp @ [h]) f t = (Inr (), t, [Exists (join ?ws [f])])"
      using same j by (intro put_output_absent) (simp add: exists_path_def)
    then show ?thesis
      using False Cons.IH [OF Cons.prems(1)] Cons.prems(2)
      by (auto simp add: io_bind_def outcome_def final_def split: prod.splits)
  next
    case True
    show ?thesis
    proof (cases r1)
      case (Inl e)
      then show ?thesis
        using True 1 by (simp add: io_bind_def)
    next
      case (Inr u1)
      then have "entry_inv t0 ?ws (cp @ [h]) (cp @ [m]) t1"
        using put_output_step(1) [OF wf Cons.prems(1) r out_td out_mk] 1 by simp
      then show ?thesis
        using True 1 Inr Cons.IH [of t1] Cons.prems(2)
        by (auto simp add: io_bind_def outcome_def final_def split: prod.splits)
    qed
  qed
qed

lemma put_outputs_root_only:
  "root_dir a = root_dir b \<Longrightarrow> put_outputs a td outputs = put_outputs b td outputs"
  by (induction outputs) (simp_all add: put_output_def)

lemma put_split:
  "put self tk terminal_output outputs exit_code =
   io_bind (put (without_remote self) tk terminal_output outputs exit_code)
     (\<lambda>u. case remoteCache (options self) of
             None \<Rightarrow> io_return ()
           | Some rc \<Rightarrow> remote_store rc (hash tk) (cachePath self))"
proof -
  have "put_outputs (without_remote self) = put_outputs self"
    by (intro ext put_outputs_root_only) (simp add: without_remote_def)
  moreover have "cachePath (without_remote self) = cachePath self"
    "remoteCache (options (without_remote self)) = None"
    by (simp_all add: without_remote_def)
  ultimately show ?thesis
    by (simp add: put_def Let_def io_bind_assoc io_bind_return)
qed

subsection \<open>The text of an exit code\<close>






lemma dropWhile_none: "\<forall>c\<in>set s. \<not> P c \<Longrightarrow> dropWhile P s = s"
  by (induction s) auto







subsection \<open>A successful put\<close>

lemma put_local_success:
  assumes "put (without_remote self) tk terminal_output outputs exit_code t0 = (Inr u, t', es)"
    and "safe_hash (hash tk)"
  shows "\<exists>t1 t2 t3 t4 t5 tB tC es'.
     fs_remove t0 (cachePath self @ [hash tk @ ''.commit'']) = Inr t1 \<and>
     fs_remove t1 (cachePath self @ [hash tk]) = Inr t2 \<and>
     fs_mkdir t2 (cachePath self @ [hash tk]) = Inr t3 \<and>
     fs_writeFile (cachePath self @ [hash tk, ''terminalOutput''])
       (case terminal_output of None \<Rightarrow> ''no terminal output'' | Some s \<Rightarrow> s) t3 = Inr t4 \<and>
     fs_mkdir t4 (cachePath self @ [hash tk, ''outputs'']) = Inr t5 \<and>
     put_outputs self (cachePath self @ [hash tk]) outputs t5 = (Inr (), tB, es') \<and>
     fs_writeFile (cachePath self @ [hash tk, ''code'']) (toString exit_code) tB = Inr tC \<and>
     fs_writeFile (cachePath self @ [hash tk @ ''.commit'']) ''true'' tC = Inr t'"
proof -
  have po: "put_outputs (without_remote self) = put_outputs self"
    by (intro ext put_outputs_root_only) (simp add: without_remote_def)
  have f: "cachePath (without_remote self) = cachePath self"
    "remoteCache (options (without_remote self)) = None"
    by (simp_all add: without_remote_def)
  show ?thesis
    using assms(1)
    unfolding put_def Let_def remove_def mkdir_def writeFile_def f po
      join_safe [OF assms(2)] join_safe [OF safe_hash_commit [OF assms(2)]] join_fixed
    by (auto dest!: io_bind_success io_write_success simp add: io_return_def)
qed

lemma prefix_snoc_above:
  assumes "prefix q p"
  shows "\<not> prefix (p @ [x]) q"
proof
  assume "prefix (p @ [x]) q"
  then have "prefix (p @ [x]) p"
    using assms by (rule prefix_order.trans)
  then have "length (p @ [x]) \<le> length p"
    by (rule prefix_length_le)
  then show False by simp
qed

lemma prepare_entry:
  assumes wf: "wf_fs t0"
    and r1: "fs_remove t0 (cp @ [h @ ''.commit'']) = Inr t1"
    and r2: "fs_remove t1 (cp @ [h]) = Inr t2"
    and m1: "fs_mkdir t2 (cp @ [h]) = Inr t3"
    and w1: "fs_writeFile (cp @ [h, ''terminalOutput'']) text t3 = Inr t4"
    and m2: "fs_mkdir t4 (cp @ [h, ''outputs'']) = Inr t5"
  shows "entry_inv t0 ws (cp @ [h]) (cp @ [h @ ''.commit'']) t5"
    and "stat t5 (cp @ [h, ''terminalOutput'']) = Some (File text)"
proof -
  let ?td = "cp @ [h]"
  let ?mk = "cp @ [h @ ''.commit'']"
  have s1: "stat t1 q = (if q = [] then Some Directory else if prefix ?mk q then None else stat t0 q)" for q
    using r1 by (rule stat_remove)
  have s2: "stat t2 q = (if q = [] then Some Directory else if prefix ?td q then None else stat t1 q)" for q
    using r2 by (rule stat_remove)
  have s3: "stat t3 q = (if q = ?td then Some Directory else stat t2 q)" for q
    using m1 by (rule stat_mkdir(1))
  have s4: "stat t4 q = (if q = cp @ [h, ''terminalOutput''] then Some (File text) else stat t3 q)" for q
    using w1 by (rule stat_writeFile(1))
  have s5: "stat t5 q = (if q = cp @ [h, ''outputs''] then Some Directory else stat t4 q)" for q
    using m2 by (rule stat_mkdir(1))
  show "stat t5 (cp @ [h, ''terminalOutput'']) = Some (File text)"
    by (simp add: s5 s4)
  have out: "stat t5 q = stat t0 q" if "\<not> prefix ?td q" "\<not> prefix ?mk q" for q
  proof -
    have "q \<noteq> cp @ [h, ''outputs'']" "q \<noteq> cp @ [h, ''terminalOutput'']" "q \<noteq> ?td"
      using that(1) by (auto simp add: prefix_def)
    then show ?thesis
      using that by (simp add: s5 s4 s3 s2 s1)
  qed
  have "stat t2 (butlast ?td) = Some Directory"
    using m1 by (rule stat_mkdir(3))
  then have cp2: "stat t2 cp = Some Directory"
    by simp
  have cp0: "stat t0 cp = Some Directory"
    using cp2 by (auto simp add: s2 s1 split: if_splits)
  have anc: "stat t5 q = Some Directory" if "prefix q cp" for q
  proof -
    have "stat t0 q = Some Directory"
      using wf cp0 that by (rule wf_fs_prefix_dir)
    moreover have "\<not> prefix ?td q" "\<not> prefix ?mk q"
      using that by (simp_all add: prefix_snoc_above)
    ultimately show ?thesis
      using out by simp
  qed
  have dirs: "stat t5 q = Some Directory" if "prefix q (?td @ [''outputs''])" for q
  proof -
    have "prefix q ?td \<or> q = ?td @ [''outputs'']"
      using that by (simp only: prefix_snoc) blast
    then consider "prefix q cp" | "q = ?td" | "q = ?td @ [''outputs'']"
      by (simp only: prefix_snoc) blast
    then show ?thesis
    proof cases
      case 1
      then show ?thesis by (rule anc)
    next
      case 2
      then show ?thesis by (simp add: s5 s4 s3)
    next
      case 3
      then show ?thesis by (simp add: s5)
    qed
  qed
  have empty: "stat t5 (?td @ ''outputs'' # s) = None" if "s \<noteq> []" for s
    using that by (simp add: s5 s4 s3 s2)
  show "entry_inv t0 ws ?td ?mk t5"
    using out dirs empty by (simp add: entry_inv_def)
qed

lemma plain_outputD:
  assumes "plain_output self tk f"
  shows "\<exists>r. inside f = Some r \<and>
     \<not> prefix (cachePath self @ [hash tk]) (root_dir self @ r) \<and>
     \<not> prefix (cachePath self @ [hash tk @ ''.commit'']) (root_dir self @ r)"
  using assms by (auto simp add: plain_output_def split: option.splits)

lemma put_local_entry:
  assumes wf: "wf_fs t0"
    and safe: "safe_hash (hash tk)"
    and plain: "\<forall>f\<in>set outputs. plain_output self tk f"
    and run: "put (without_remote self) tk terminal_output outputs exit_code t0 = (Inr u, t', es)"
  shows "stat t' (cachePath self @ [hash tk @ ''.commit'']) = Some (File ''true'')"
    and "stat t' (cachePath self @ [hash tk, ''terminalOutput'']) =
           Some (File (case terminal_output of None \<Rightarrow> ''no terminal output'' | Some s \<Rightarrow> s))"
    and "stat t' (cachePath self @ [hash tk, ''code'']) = Some (File (toString exit_code))"
    and "\<And>f r s. f \<in> set outputs \<Longrightarrow> inside f = Some r \<Longrightarrow> stat t0 (root_dir self @ r) \<noteq> None \<Longrightarrow>
           stat t' ((cachePath self @ [hash tk, ''outputs'']) @ r @ s) = stat t0 (root_dir self @ r @ s)"
    and "\<And>s. s \<noteq> [] \<Longrightarrow> stat t' ((cachePath self @ [hash tk, ''outputs'']) @ s) = None \<or>
           stat t' ((cachePath self @ [hash tk, ''outputs'']) @ s) = stat t0 (root_dir self @ s)"
proof -
  let ?cp = "cachePath self"
  let ?h = "hash tk"
  let ?mk = "?cp @ [?h @ ''.commit'']"
  let ?outs = "?cp @ [?h, ''outputs'']"
  let ?text = "case terminal_output of None \<Rightarrow> ''no terminal output'' | Some s \<Rightarrow> s"
  obtain t1 t2 t3 t4 t5 tB tC es' where
    r1: "fs_remove t0 ?mk = Inr t1" and
    r2: "fs_remove t1 (?cp @ [?h]) = Inr t2" and
    m1: "fs_mkdir t2 (?cp @ [?h]) = Inr t3" and
    w1: "fs_writeFile (?cp @ [?h, ''terminalOutput'']) ?text t3 = Inr t4" and
    m2: "fs_mkdir t4 ?outs = Inr t5" and
    lp: "put_outputs self (?cp @ [?h]) outputs t5 = (Inr (), tB, es')" and
    w2: "fs_writeFile (?cp @ [?h, ''code'']) (toString exit_code) tB = Inr tC" and
    w3: "fs_writeFile ?mk ''true'' tC = Inr t'"
    using put_local_success [OF run safe] by blast
  note pre = prepare_entry(1) [OF wf r1 r2 m1 w1 m2, where ws = "root_dir self"]
    prepare_entry(2) [OF wf r1 r2 m1 w1 m2]
  have plain': "\<forall>f\<in>set outputs. \<exists>r. inside f = Some r \<and>
          \<not> prefix (?cp @ [?h]) (root_dir self @ r) \<and> \<not> prefix ?mk (root_dir self @ r)"
    using plain plain_outputD by blast
  note loop = put_outputs_inv [OF wf pre(1) plain' lp]
  have sC: "stat tC q = (if q = ?cp @ [?h, ''code''] then Some (File (toString exit_code)) else stat tB q)" for q
    using w2 by (rule stat_writeFile(1))
  have s': "stat t' q = (if q = ?mk then Some (File ''true'') else stat tC q)" for q
    using w3 by (rule stat_writeFile(1))
  have under: "stat t' (?outs @ s) = stat tB (?outs @ s)" for s
    by (simp add: s' sC)
  show "stat t' ?mk = Some (File ''true'')"
    by (simp add: s')
  show "stat t' (?cp @ [?h, ''code'']) = Some (File (toString exit_code))"
    by (simp add: s' sC)
  have "\<not> strict_prefix ?outs (?cp @ [?h, ''terminalOutput''])"
    by (simp add: strict_prefix_def prefix_def)
  then have "stat tB (?cp @ [?h, ''terminalOutput'']) = stat t5 (?cp @ [?h, ''terminalOutput''])"
    using loop by blast
  then show "stat t' (?cp @ [?h, ''terminalOutput'']) = Some (File ?text)"
    using pre(2) by (simp add: s' sC)
  show "stat t' (?outs @ r @ s) = stat t0 (root_dir self @ r @ s)"
    if "f \<in> set outputs" "inside f = Some r" "stat t0 (root_dir self @ r) \<noteq> None" for f r s
  proof -
    have "stat tB (?outs @ r @ s) = stat t0 (root_dir self @ r @ s)"
      using loop that by simp
    then show ?thesis
      using under [of "r @ s"] by simp
  qed
  show "stat t' (?outs @ s) = None \<or> stat t' (?outs @ s) = stat t0 (root_dir self @ s)"
    if "s \<noteq> []" for s
  proof -
    have "entry_inv t0 (root_dir self) (?cp @ [?h]) ?mk tB"
      using loop by simp
    then have "stat tB (?outs @ s) = None \<or> stat tB (?outs @ s) = stat t0 (root_dir self @ s)"
      using that by (simp add: entry_inv_def)
    then show ?thesis
      using under [of s] by simp
  qed
qed

lemma put_final_local:
  assumes "outcome (put self tk terminal_output outputs exit_code t0) = Inr ()"
  shows "\<exists>u es. put (without_remote self) tk terminal_output outputs exit_code t0 =
           (Inr u, final (put self tk terminal_output outputs exit_code t0), es)"
proof -
  obtain r t1 es1 where l: "put (without_remote self) tk terminal_output outputs exit_code t0 = (r, t1, es1)"
    by (cases "put (without_remote self) tk terminal_output outputs exit_code t0")
  show ?thesis
  proof (cases r)
    case (Inl e)
    then show ?thesis
      using assms l by (simp add: put_split [of self] io_bind_def)
  next
    case (Inr u)
    then have "final (put self tk terminal_output outputs exit_code t0) = t1"
      using l
      by (simp add: put_split [of self] io_bind_def io_return_def remote_store_def
          split: option.splits)
    then show ?thesis
      using l Inr by simp
  qed
qed


subsection \<open>Round trip\<close>




subsection \<open>Missing outputs and a failing remote cache\<close>

text \<open>
  Claim C8, as stated, fails: with the cache directory inside the workspace, the declared
  output \<^verbatim>\<open>cache/h1\<close> does not exist when \<^verbatim>\<open>put\<close> is called for the hash \<^verbatim>\<open>h1\<close>; it is
  the entry directory, which \<^verbatim>\<open>put\<close> creates before it looks at the outputs, and the
  copy of that directory into itself is rejected.
\<close>

theorem put_missing_output_counterexample:
  "wf_fs nested_workspace \<and>
   \<not> exists_path nested_workspace (join (root_dir nested_cache) [''cache/h1'']) \<and>
   outcome (put nested_cache \<lparr>hash = ''h1''\<rparr> (Some ''hello'') [''cache/h1''] 0 nested_workspace) =
     Inl CopyError"
  by code_simp

lemma bind_same:
  assumes "outcome (m t) = outcome (m' t)" and "final (m t) = final (m' t)"
  shows "outcome (io_bind m f t) = outcome (io_bind m' f t) \<and>
         final (io_bind m f t) = final (io_bind m' f t)"
  using assms
  by (cases "m t"; cases "m' t")
     (auto simp add: io_bind_def outcome_def final_def split: sum.splits prod.splits)

lemma wf_fs_below_missing:
  assumes "wf_fs t" and "stat t p = None"
  shows "stat t (p @ s) = None"
proof (rule ccontr)
  assume a: "stat t (p @ s) \<noteq> None"
  then have "stat t p = Some Directory \<or> s = []"
    using wf_fs_ancestors [OF assms(1)] by blast
  then show False
    using assms(2) a by auto
qed

text \<open>
  Claim C8, amended. In a well-formed file system, for a hash that is one plain path
  segment and declared outputs that neither climb out of their base directory with
  \<^verbatim>\<open>..\<close> nor lie inside the entry directory or the commit marker of that hash, \<^verbatim>\<open>put\<close>
  behaves as if the outputs that do not exist when it is called had not been declared:
  it has the same outcome and leaves the same file system, so a missing output is never
  the reason of an error; and after a successful \<^verbatim>\<open>put\<close> nothing exists at the place of
  a missing output under \<^verbatim>\<open>outputs/\<close>.
\<close>

theorem put_skips_missing_outputs:
  assumes wf: "wf_fs t0"
    and safe: "safe_hash (hash tk)"
    and plain: "\<forall>f\<in>set outputs. plain_output self tk f"
  shows "outcome (put self tk terminal_output outputs exit_code t0) =
           outcome (put self tk terminal_output
             (filter (\<lambda>f. exists_path t0 (join (root_dir self) [f])) outputs) exit_code t0) \<and>
         final (put self tk terminal_output outputs exit_code t0) =
           final (put self tk terminal_output
             (filter (\<lambda>f. exists_path t0 (join (root_dir self) [f])) outputs) exit_code t0) \<and>
         (outcome (put self tk terminal_output outputs exit_code t0) = Inr () \<longrightarrow>
          (\<forall>f\<in>set outputs. \<not> exists_path t0 (join (root_dir self) [f]) \<longrightarrow>
             (\<forall>s. join (join (join (cachePath self) [hash tk]) [''outputs'']) [f] @ s \<noteq>
                    join (join (cachePath self) [hash tk]) [''outputs''] \<longrightarrow>
                  stat (final (put self tk terminal_output outputs exit_code t0))
                    (join (join (join (cachePath self) [hash tk]) [''outputs'']) [f] @ s) = None)))"
proof -
  let ?cp = "cachePath self"
  let ?h = "hash tk"
  let ?td = "?cp @ [?h]"
  let ?mk = "?cp @ [?h @ ''.commit'']"
  let ?text = "case terminal_output of None \<Rightarrow> ''no terminal output'' | Some s \<Rightarrow> s"
  let ?present = "filter (\<lambda>f. exists_path t0 (join (root_dir self) [f])) outputs"
  let ?pre = "io_bind (remove ?mk) (\<lambda>u. io_bind (remove ?td) (\<lambda>u. io_bind (mkdir ?td) (\<lambda>u.
              io_bind (writeFile (?td @ [''terminalOutput'']) ?text) (\<lambda>u.
                mkdir (?td @ [''outputs''])))))"
  let ?tail = "\<lambda>u::unit. io_bind (writeFile (?td @ [''code'']) (toString exit_code)) (\<lambda>u.
              io_bind (writeFile ?mk ''true'') (\<lambda>u.
                case remoteCache (options self) of
                  None \<Rightarrow> io_return ()
                | Some rc \<Rightarrow> remote_store rc ?h ?cp))"
  have shape: "put self tk terminal_output outs exit_code =
      io_bind ?pre (\<lambda>u. io_bind (put_outputs self ?td outs) ?tail)" for outs
    by (simp add: put_def Let_def io_bind_assoc join_safe [OF safe]
        join_safe [OF safe_hash_commit [OF safe]])
  have plain': "\<forall>f\<in>set outputs. \<exists>r. inside f = Some r \<and>
          \<not> prefix ?td (root_dir self @ r) \<and> \<not> prefix ?mk (root_dir self @ r)"
    using plain plain_outputD by blast
  obtain r5 t5 es5 where pre: "?pre t0 = (r5, t5, es5)"
    by (cases "?pre t0")
  have same: "outcome (put self tk terminal_output outputs exit_code t0) =
           outcome (put self tk terminal_output ?present exit_code t0) \<and>
         final (put self tk terminal_output outputs exit_code t0) =
           final (put self tk terminal_output ?present exit_code t0)"
  proof (cases r5)
    case (Inl e)
    then show ?thesis
      using pre by (simp add: shape io_bind_def)
  next
    case (Inr u)
    then have "\<exists>t1 t2 t3 t4.
       fs_remove t0 ?mk = Inr t1 \<and> fs_remove t1 ?td = Inr t2 \<and> fs_mkdir t2 ?td = Inr t3 \<and>
       fs_writeFile (?cp @ [?h, ''terminalOutput'']) ?text t3 = Inr t4 \<and>
       fs_mkdir t4 (?cp @ [?h, ''outputs'']) = Inr t5"
      using pre unfolding remove_def mkdir_def writeFile_def
      by (auto dest!: io_bind_success io_write_success)
    then have inv: "entry_inv t0 (root_dir self) ?td ?mk t5"
      using prepare_entry(1) [OF wf] by blast
    have "outcome (io_bind (put_outputs self ?td outputs) ?tail t5) =
          outcome (io_bind (put_outputs self ?td ?present) ?tail t5) \<and>
          final (io_bind (put_outputs self ?td outputs) ?tail t5) =
          final (io_bind (put_outputs self ?td ?present) ?tail t5)"
      using put_outputs_skip [OF wf inv plain'] by (intro bind_same) simp_all
    moreover have "outcome (io_bind ?pre K t0) = outcome (K u t5)"
      "final (io_bind ?pre K t0) = final (K u t5)" for K :: "unit \<Rightarrow> unit io"
      using pre Inr by (simp_all add: io_bind_def outcome_def final_def split: prod.splits)
    ultimately show ?thesis
      by (simp only: shape)
  qed
  have omitted: "stat (final (put self tk terminal_output outputs exit_code t0))
        (join (join (join ?cp [?h]) [''outputs'']) [f] @ s) = None"
    if ok: "outcome (put self tk terminal_output outputs exit_code t0) = Inr ()"
      and f: "f \<in> set outputs" and miss: "\<not> exists_path t0 (join (root_dir self) [f])"
      and ne: "join (join (join ?cp [?h]) [''outputs'']) [f] @ s \<noteq> join (join ?cp [?h]) [''outputs'']"
    for f s
  proof -
    let ?t' = "final (put self tk terminal_output outputs exit_code t0)"
    obtain u es where run: "put (without_remote self) tk terminal_output outputs exit_code t0 = (Inr u, ?t', es)"
      using put_final_local [OF ok] by blast
    obtain r where r: "inside f = Some r"
      using plain f plain_outputD by blast
    have none: "stat t0 (root_dir self @ r) = None"
      using miss by (simp add: exists_path_def join_inside [OF r])
    have rs: "r @ s \<noteq> []"
      using ne by (simp add: join_inside [OF r] join_safe [OF safe])
    have "stat ?t' ((?cp @ [?h, ''outputs'']) @ r @ s) = None \<or>
          stat ?t' ((?cp @ [?h, ''outputs'']) @ r @ s) = stat t0 (root_dir self @ r @ s)"
      using put_local_entry(5) [OF wf safe plain run, of "r @ s"] rs by simp
    moreover have "stat t0 (root_dir self @ r @ s) = None"
      using wf_fs_below_missing [OF wf none, of s] by simp
    ultimately show ?thesis
      by (auto simp add: join_inside [OF r] join_safe [OF safe])
  qed
  show ?thesis
    using same omitted by blast
qed


theorem put_skips_missing_outputs_witness:
  "wf_fs workspace_with_output \<and> safe_hash ''h1'' \<and>
   plain_output example_cache \<lparr>hash = ''h1''\<rparr> ''dist/a.txt'' \<and>
   plain_output example_cache \<lparr>hash = ''h1''\<rparr> ''nothere'' \<and>
   \<not> exists_path workspace_with_output (join (root_dir example_cache) [''nothere'']) \<and>
   outcome (put example_cache \<lparr>hash = ''h1''\<rparr> (Some ''hello'') [''dist/a.txt'', ''nothere''] 0
              workspace_with_output) = Inr () \<and>
   final (put example_cache \<lparr>hash = ''h1''\<rparr> (Some ''hello'') [''dist/a.txt'', ''nothere''] 0
              workspace_with_output) =
   final (put example_cache \<lparr>hash = ''h1''\<rparr> (Some ''hello'') [''dist/a.txt''] 0
              workspace_with_output) \<and>
   stat (final (put example_cache \<lparr>hash = ''h1''\<rparr> (Some ''hello'') [''dist/a.txt'', ''nothere''] 0
              workspace_with_output)) [''cache'', ''h1'', ''outputs'', ''nothere''] = None"
proof -
  have 1: "wf_fs workspace_with_output" by code_simp
  have 2: "safe_hash (hash \<lparr>hash = ''h1''\<rparr>)" by code_simp
  have 3: "\<forall>f\<in>set [''dist/a.txt'', ''nothere'']. plain_output example_cache \<lparr>hash = ''h1''\<rparr> f"
    by code_simp
  have 4: "filter (\<lambda>f. exists_path workspace_with_output (join (root_dir example_cache) [f]))
             [''dist/a.txt'', ''nothere''] = [''dist/a.txt'']"
    by code_simp
  have 5: "outcome (put example_cache \<lparr>hash = ''h1''\<rparr> (Some ''hello'') [''dist/a.txt'', ''nothere''] 0
              workspace_with_output) = Inr ()"
    by code_simp
  have 6: "\<not> exists_path workspace_with_output (join (root_dir example_cache) [''nothere''])"
    by code_simp
  have 7: "stat (final (put example_cache \<lparr>hash = ''h1''\<rparr> (Some ''hello'') [''dist/a.txt'', ''nothere''] 0
              workspace_with_output)) [''cache'', ''h1'', ''outputs'', ''nothere''] = None"
    by code_simp
  show ?thesis
    using put_skips_missing_outputs [OF 1 2 3, of "Some ''hello''" 0] 1 2 3 4 5 6 7
    by simp
qed



end
